theory Spec2Isabelle
  imports Main "HOL-Library.AList" "HOL-Library.Multiset" "HOL-Library.Sublist"
begin

section \<open>Python values, exceptions and the job function\<close>

text \<open>
  The objects that cross the process boundary: argument tuples, keyword mappings, return
  values and the arguments of an exception. \<open>PyNone\<close> is Python's \<open>None\<close>.
\<close>

datatype pyval =
    PyNone
  | PyInt int
  | PyStr string
  | PyTuple "pyval list"
  | PyDict "(string \<times> pyval) list"

type_synonym kwargs = "(string \<times> pyval) list"

text \<open>An exception object: its class and its \<open>args\<close> tuple.\<close>

record exc =
  exc_class :: string
  exc_args :: "pyval list"

text \<open>
  One call \<open>function(*args, **kwargs)\<close> returns a value, or raises an instance of
  \<open>Exception\<close>, or raises an error that is no instance of \<open>Exception\<close> (\<open>SystemExit\<close>,
  \<open>KeyboardInterrupt\<close>, a class derived from \<open>BaseException\<close>), which the clause of line
  58 does not catch. An instance of \<open>Exception\<close> carries its traceback, given as the list
  of strings that \<open>traceback.format_tb\<close> makes of it. A call that never returns is not
  part of this model.
\<close>

datatype call = Returned pyval | Raised exc "string list" | Escaped exc

type_synonym pyfun = "pyval list \<Rightarrow> kwargs \<Rightarrow> call"

text \<open>\<open>sep.join(xs)\<close> on strings.\<close>

fun str_join :: "string \<Rightarrow> string list \<Rightarrow> string" where
  "str_join sep [] = []"
| "str_join sep [x] = x"
| "str_join sep (x # y # ys) = x @ sep @ str_join sep (y # ys)"

section \<open>The worker wrapper\<close>

text \<open>The dictionary \<open>retdict\<close> with its three keys \<open>'pid'\<close>, \<open>'exception'\<close>, \<open>'result'\<close>.\<close>

record retdict =
  r_pid :: nat
  r_exception :: "(exc \<times> string) option"
  r_result :: pyval

text \<open>
  \<open>_proc_f\<close> (lines 53-63). The queue is the list of envelopes it holds, oldest first;
  \<open>results_q.put\<close> appends. The \<open>finally\<close> clause runs on every path: after the
  assignment of line 57, after the handler of lines 59-61, and when the error is one the
  handler does not catch; then \<open>retdict\<close> is put as it was made on line 54 and the error
  leaves \<open>_proc_f\<close>. The result is the queue after the call and the error that leaves,
  if one does.
\<close>

definition proc_f ::
  "pyfun \<Rightarrow> retdict list \<Rightarrow> nat \<Rightarrow> pyval list \<Rightarrow> kwargs \<Rightarrow> retdict list \<times> exc option" where
  "proc_f func results_q pid args kwargs =
     (let retdict = \<lparr>r_pid = pid, r_exception = None, r_result = PyNone\<rparr>
      in case func args kwargs of
           Returned v \<Rightarrow> (results_q @ [retdict\<lparr>r_result := v\<rparr>], None)
         | Raised e tb \<Rightarrow>
             (let stacktrace = str_join [CHR 0x0A] tb
              in (results_q @ [retdict\<lparr>r_exception := Some (e, stacktrace)\<rparr>], None))
         | Escaped e \<Rightarrow> (results_q @ [retdict], Some e))"

section \<open>Process handles and the scheduler's state\<close>

text \<open>
  A process handle keeps what its target \<open>_proc_f\<close> is called with; the function and the
  queue are those of the enclosing call.
\<close>

record proc =
  target_pid :: nat
  target_args :: "pyval list"
  target_kwargs :: kwargs

text \<open>
  The calls made on handles, on the dictionary \<open>processes\<close> and on the queue, in the order
  the coordinator makes them.
\<close>

datatype event =
    Start nat
  | Terminate nat
  | Join nat
  | Insert nat
  | Delete nat
  | Receive retdict

text \<open>
  The mutable variables of one call of \<open>schedule_workers\<close>: the dictionary \<open>processes\<close>
  (in insertion order), the queue, the list \<open>results\<close>; then the child processes that are
  still executing their target, the number of blocking receives made so far, and the
  calls made so far.
\<close>

record state =
  processes :: "(nat \<times> proc) list"
  results_q :: "retdict list"
  results :: "pyval list"
  live :: "proc list"
  clock :: nat
  trace :: "event list"

definition init_state :: state where
  "init_state = \<lparr>processes = [], results_q = [], results = [], live = [], clock = 0, trace = []\<rparr>"

text \<open>
  The global \<open>Process\<close> is \<open>FakeProcess\<close> or \<open>multiprocessing.Process\<close>. A real process
  runs beside the coordinator and finishes when the operating system lets it: the
  argument of \<open>Process\<close> says, for the n-th blocking receive, which of the live children
  finish before it, each number choosing a position in the list of live children.
\<close>

datatype process_class = FakeProcess | Process "nat \<Rightarrow> nat list"

text \<open>
  A live child runs \<open>_proc_f\<close> to its end: it puts its envelope and exits. An error that
  leaves \<open>_proc_f\<close> there ends the child and reaches nobody else.
\<close>

definition finish :: "pyfun \<Rightarrow> proc \<Rightarrow> state \<Rightarrow> state" where
  "finish func w st =
     st\<lparr>results_q := fst (proc_f func (results_q st) (target_pid w) (target_args w) (target_kwargs w)),
        live := filter (\<lambda>v. target_pid v \<noteq> target_pid w) (live st)\<rparr>"

fun finish_some :: "pyfun \<Rightarrow> nat list \<Rightarrow> state \<Rightarrow> state" where
  "finish_some func [] st = st"
| "finish_some func (c # cs) st =
     (if live st = [] then st
      else finish_some func cs (finish func (live st ! (c mod length (live st))) st))"

text \<open>
  What \<open>schedule_workers\<close> can raise: the worker's exception re-raised on line 112, the
  \<open>KeyError\<close> of a failed lookup in \<open>processes\<close> on lines 114-116, or an error that left
  \<open>_proc_f\<close> in the coordinator's own flow of control.
\<close>

datatype error = Propagated exc | KeyError nat | Unhandled exc

text \<open>A call returns, raises, or blocks for ever in \<open>results_q.get()\<close>.\<close>

datatype 'a outcome = Returns 'a | Raises error | Blocks

text \<open>
  \<open>start\<close>: \<open>FakeProcess\<close> runs the target inline (line 32), so an error that leaves
  \<open>_proc_f\<close> leaves \<open>start\<close>; a real process is forked, and \<open>start\<close> returns.
\<close>

fun start :: "process_class \<Rightarrow> pyfun \<Rightarrow> proc \<Rightarrow> state \<Rightarrow> unit outcome \<times> state" where
  "start FakeProcess func p st =
     (case proc_f func (results_q st) (target_pid p) (target_args p) (target_kwargs p) of
        (q, leaving) \<Rightarrow>
          (let st' = st\<lparr>results_q := q, trace := trace st @ [Start (target_pid p)]\<rparr>
           in case leaving of
                None \<Rightarrow> (Returns (), st')
              | Some e \<Rightarrow> (Raises (Unhandled e), st')))"
| "start (Process sched) func p st =
     (Returns (), st\<lparr>live := live st @ [p], trace := trace st @ [Start (target_pid p)]\<rparr>)"

text \<open>\<open>terminate\<close>: nothing for \<open>FakeProcess\<close>; a real child that still runs is killed.\<close>

fun terminate :: "process_class \<Rightarrow> proc \<Rightarrow> state \<Rightarrow> state" where
  "terminate FakeProcess p st = st\<lparr>trace := trace st @ [Terminate (target_pid p)]\<rparr>"
| "terminate (Process sched) p st =
     st\<lparr>live := filter (\<lambda>v. target_pid v \<noteq> target_pid p) (live st),
        trace := trace st @ [Terminate (target_pid p)]\<rparr>"

text \<open>\<open>join\<close>: nothing for \<open>FakeProcess\<close>; for a real child, wait until it has exited.\<close>

fun join :: "process_class \<Rightarrow> pyfun \<Rightarrow> proc \<Rightarrow> state \<Rightarrow> state" where
  "join FakeProcess func p st = st\<lparr>trace := trace st @ [Join (target_pid p)]\<rparr>"
| "join (Process sched) func p st =
     (let st' = (if target_pid p \<in> target_pid ` set (live st) then finish func p st else st)
      in st'\<lparr>trace := trace st' @ [Join (target_pid p)]\<rparr>)"

text \<open>
  \<open>results_q.get()\<close> blocks until the queue holds an envelope; \<open>None\<close> is the call that
  never returns (an empty queue that no child will ever put to). With real processes
  the children named by the schedule finish first, and if the queue is still empty the
  receive waits for the longest-running live child.
\<close>

fun q_get :: "process_class \<Rightarrow> pyfun \<Rightarrow> state \<Rightarrow> (retdict \<times> state) option" where
  "q_get FakeProcess func st =
     (case results_q st of
        [] \<Rightarrow> None
      | r # q \<Rightarrow> Some (r, st\<lparr>results_q := q\<rparr>))"
| "q_get (Process sched) func st =
     (let st1 = finish_some func (sched (clock st)) (st\<lparr>clock := clock st + 1\<rparr>);
          st2 = (if results_q st1 = [] then finish_some func [0] st1 else st1)
      in case results_q st2 of
           [] \<Rightarrow> None
         | r # q \<Rightarrow> Some (r, st2\<lparr>results_q := q\<rparr>))"

section \<open>The scheduler\<close>

text \<open>The variables the two inner functions close over and never assign.\<close>

record config =
  process_class :: process_class
  func :: pyfun
  max_processes :: int
  forward_exceptions :: bool

text \<open>
  \<open>new_process\<close> (lines 97-100): when \<open>start\<close> raises, line 100 is not reached.
\<close>

definition new_process ::
  "config \<Rightarrow> nat \<Rightarrow> pyval list \<Rightarrow> kwargs \<Rightarrow> state \<Rightarrow> unit outcome \<times> state" where
  "new_process cfg pid args kwargs st =
     (let new_proc = \<lparr>target_pid = pid, target_args = args, target_kwargs = kwargs\<rparr>
      in case start (process_class cfg) (func cfg) new_proc st of
           (Returns u, st1) \<Rightarrow>
             (Returns (),
              st1\<lparr>processes := AList.update pid new_proc (processes st1),
                  trace := trace st1 @ [Insert pid]\<rparr>)
         | (Raises e, st1) \<Rightarrow> (Raises e, st1)
         | (Blocks, st1) \<Rightarrow> (Blocks, st1))"

text \<open>
  Lines 114-116: the three statements look the same key up; \<open>join\<close> and \<open>terminate\<close> leave
  the dictionary alone, so the first lookup decides for all three.
\<close>

definition release :: "config \<Rightarrow> retdict \<Rightarrow> state \<Rightarrow> unit outcome \<times> state" where
  "release cfg result st =
     (case map_of (processes st) (r_pid result) of
        None \<Rightarrow> (Raises (KeyError (r_pid result)), st)
      | Some p \<Rightarrow>
          (let st1 = join (process_class cfg) (func cfg) p st;
               st2 = terminate (process_class cfg) p st1
           in (Returns (),
               st2\<lparr>processes := AList.delete (r_pid result) (processes st2),
                   trace := trace st2 @ [Delete (r_pid result)]\<rparr>)))"

text \<open>
  \<open>collect_result\<close> (lines 102-116). \<open>not result['exception']\<close> holds exactly when the
  field is \<open>None\<close>: the other value it can have is a list of two elements.
\<close>

definition collect_result :: "config \<Rightarrow> state \<Rightarrow> unit outcome \<times> state" where
  "collect_result cfg st =
     (case q_get (process_class cfg) (func cfg) st of
        None \<Rightarrow> (Blocks, st)
      | Some (result, st0) \<Rightarrow>
          (let st1 = st0\<lparr>trace := trace st0 @ [Receive result]\<rparr>
           in case r_exception result of
                None \<Rightarrow> release cfg result (st1\<lparr>results := results st1 @ [r_result result]\<rparr>)
              | Some (e, stacktrace) \<Rightarrow>
                  if forward_exceptions cfg then
                    (let st2 = fold (\<lambda>(pid, p). terminate (process_class cfg) p) (processes st1) st1
                     in (Raises (Propagated (e\<lparr>exc_args := exc_args e @ [PyStr stacktrace]\<rparr>)), st2))
                  else release cfg result st1))"

text \<open>
  The job sequence \<open>args_list\<close> together with the flag \<open>with_kwargs\<close>: without the flag a
  job is the argument tuple, and the keyword mapping is \<open>dict()\<close>; with it a job is the
  pair of both (lines 119-123).
\<close>

datatype args_list =
    Positional "pyval list list"
  | With_kwargs "(pyval list \<times> kwargs) list"

fun unpack :: "args_list \<Rightarrow> (pyval list \<times> kwargs) list" where
  "unpack (Positional js) = map (\<lambda>job. (job, [])) js"
| "unpack (With_kwargs js) = js"

text \<open>The loop of lines 118-128, over the jobs not yet admitted; \<open>pid\<close> is the next index.\<close>

fun admit :: "config \<Rightarrow> nat \<Rightarrow> (pyval list \<times> kwargs) list \<Rightarrow> state \<Rightarrow> unit outcome \<times> state" where
  "admit cfg pid [] st = (Returns (), st)"
| "admit cfg pid ((args, kwargs) # jobs) st =
     (case (if int (length (processes st)) \<ge> max_processes cfg then collect_result cfg st
            else (Returns (), st)) of
        (Returns u, st1) \<Rightarrow>
          (case new_process cfg pid args kwargs st1 of
             (Returns u', st2) \<Rightarrow> admit cfg (pid + 1) jobs st2
           | (Raises e, st2) \<Rightarrow> (Raises e, st2)
           | (Blocks, st2) \<Rightarrow> (Blocks, st2))
      | (Raises e, st1) \<Rightarrow> (Raises e, st1)
      | (Blocks, st1) \<Rightarrow> (Blocks, st1))"

lemma length_delete_less:
  "map_of ps k = Some v \<Longrightarrow> length (AList.delete k ps) < length ps"
  by (induction ps) (auto simp: less_Suc_eq_le AList.delete_eq intro: le_trans[OF length_filter_le])

lemma terminate_processes [simp]: "processes (terminate pc p st) = processes st"
  by (cases pc) simp_all

lemma join_processes [simp]: "processes (join pc f p st) = processes st"
  by (cases pc) (simp_all add: Let_def finish_def)

lemma release_shrinks:
  "release cfg r st = (Returns u, st') \<Longrightarrow> length (processes st') < length (processes st)"
  by (auto simp: release_def Let_def length_delete_less split: option.splits)

lemma finish_processes [simp]: "processes (finish f w st) = processes st"
  by (simp add: finish_def)

lemma finish_some_processes [simp]: "processes (finish_some f cs st) = processes st"
  by (induction f cs st rule: finish_some.induct) simp_all

lemma q_get_processes: "q_get pc f st = Some (r, st') \<Longrightarrow> processes st' = processes st"
  by (cases pc) (auto simp: Let_def split: list.splits if_splits)

lemma collect_result_shrinks:
  "collect_result cfg st = (Returns u, st') \<Longrightarrow> length (processes st') < length (processes st)"
  by (auto simp: collect_result_def Let_def split: option.splits prod.splits if_splits
           dest!: release_shrinks q_get_processes)

text \<open>The loop of lines 130-131.\<close>

function drain :: "config \<Rightarrow> state \<Rightarrow> unit outcome \<times> state" where
  "drain cfg st =
     (if length (processes st) > 0 then
        (case collect_result cfg st of
           (Returns u, st1) \<Rightarrow> drain cfg st1
         | (Raises e, st1) \<Rightarrow> (Raises e, st1)
         | (Blocks, st1) \<Rightarrow> (Blocks, st1))
      else (Returns (), st))"
  by pat_completeness auto
termination
  by (relation "measure (\<lambda>(cfg, st). length (processes st))")
     (auto dest: collect_result_shrinks[OF sym])

declare drain.simps [simp del]

text \<open>
  \<open>schedule_workers\<close> (lines 66-133) together with the state it ends in; the global
  \<open>Process\<close> is the first argument.
\<close>

definition run_workers ::
  "process_class \<Rightarrow> pyfun \<Rightarrow> args_list \<Rightarrow> int \<Rightarrow> bool \<Rightarrow> pyval list outcome \<times> state" where
  "run_workers pc fn args max_procs fwd =
     (let cfg = \<lparr>process_class = pc, func = fn, max_processes = max_procs,
                 forward_exceptions = fwd\<rparr>
      in case admit cfg 0 (unpack args) init_state of
           (Raises e, st) \<Rightarrow> (Raises e, st)
         | (Blocks, st) \<Rightarrow> (Blocks, st)
         | (Returns u, st) \<Rightarrow>
             (case drain cfg st of
                (Raises e, st') \<Rightarrow> (Raises e, st')
              | (Blocks, st') \<Rightarrow> (Blocks, st')
              | (Returns u', st') \<Rightarrow> (Returns (results st'), st')))"

definition schedule_workers ::
  "process_class \<Rightarrow> pyfun \<Rightarrow> args_list \<Rightarrow> int \<Rightarrow> bool \<Rightarrow> pyval list outcome" where
  "schedule_workers pc fn args max_procs fwd = fst (run_workers pc fn args max_procs fwd)"

section \<open>What a call is observed by\<close>

text \<open>The envelopes taken from the queue, in the order they were received.\<close>

fun received :: "event list \<Rightarrow> retdict list" where
  "received [] = []"
| "received (Receive r # es) = r # received es"
| "received (e # es) = received es"

text \<open>
  The keys of \<open>processes\<close> after a sequence of calls: line 100 adds a key at the end unless
  it is there already, line 116 removes it.
\<close>

fun apply_event :: "nat list \<Rightarrow> event \<Rightarrow> nat list" where
  "apply_event ks (Insert p) = (if p \<in> set ks then ks else ks @ [p])"
| "apply_event ks (Delete p) = removeAll p ks"
| "apply_event ks e = ks"

definition handles_after :: "event list \<Rightarrow> nat list" where
  "handles_after tr = foldl apply_event [] tr"

text \<open>
  Whether a call of the job function returned, raised an instance of \<open>Exception\<close>, or
  raised an error that line 58 does not catch.
\<close>

fun returned :: "call \<Rightarrow> bool" where
  "returned (Returned v) = True"
| "returned c = False"

fun raised :: "call \<Rightarrow> bool" where
  "raised (Raised e tb) = True"
| "raised c = False"

fun escaped :: "call \<Rightarrow> bool" where
  "escaped (Escaped e) = True"
| "escaped c = False"

text \<open>
  What the envelopes of the jobs make the coordinator append to \<open>results\<close> on line 105, in
  the order of the jobs: the return value of a job that returned, nothing for a job that
  raised an instance of \<open>Exception\<close>, and \<open>None\<close> for a job whose error was not caught
  (its envelope has no exception, and its result is the \<open>None\<close> of line 54).
\<close>

fun payloads :: "pyfun \<Rightarrow> (pyval list \<times> kwargs) list \<Rightarrow> pyval list" where
  "payloads f [] = []"
| "payloads f ((a, k) # jobs) =
     (case f a k of
        Returned v \<Rightarrow> v # payloads f jobs
      | Raised e tb \<Rightarrow> payloads f jobs
      | Escaped e \<Rightarrow> PyNone # payloads f jobs)"

text \<open>
  Which payloads an envelope carries. Both keys are always in the dictionary, so a
  payload is present when its value is not \<open>None\<close>; for the failure payload this is the
  test of line 104 (a list of two elements is true).
\<close>

definition has_result :: "retdict \<Rightarrow> bool" where
  "has_result r \<longleftrightarrow> r_result r \<noteq> PyNone"

definition has_exception :: "retdict \<Rightarrow> bool" where
  "has_exception r \<longleftrightarrow> r_exception r \<noteq> None"

text \<open>
  The job functions of the test module (\<open>return_args\<close>, \<open>return_all\<close>, \<open>crash\<close>), a function
  that returns \<open>None\<close> and one that calls \<open>sys.exit(1)\<close>; and two schedules for real
  processes: one that lets no child finish before the coordinator waits for it, one that
  lets the second live child finish first.
\<close>

definition return_args :: pyfun where
  "return_args args kwargs = Returned (PyTuple args)"

definition return_all :: pyfun where
  "return_all args kwargs = Returned (PyTuple [PyTuple args, PyDict kwargs])"

definition crash :: pyfun where
  "crash args kwargs =
     Raised \<lparr>exc_class = ''CrashException'', exc_args = [PyStr ''ouch!'']\<rparr>
       [''File multiprocessing_scheduler.py, line 57, in _proc_f'',
        ''File test_multiprocessing_scheduler.py, line 45, in crash'']"

definition return_none :: pyfun where
  "return_none args kwargs = Returned PyNone"

definition exits :: pyfun where
  "exits args kwargs = Escaped \<lparr>exc_class = ''SystemExit'', exc_args = [PyInt 1]\<rparr>"

definition in_turn :: "nat \<Rightarrow> nat list" where
  "in_turn n = []"

definition newest_first :: "nat \<Rightarrow> nat list" where
  "newest_first n = [1, 0]"


section \<open>Invariants of the scheduling loop\<close>

text \<open>
  The keys of \<open>processes\<close>, the job identifiers of the children still running, and those
  of the envelopes waiting in the queue.
\<close>

definition pids :: "state \<Rightarrow> nat list" where
  "pids st = map fst (processes st)"

definition live_pids :: "state \<Rightarrow> nat list" where
  "live_pids st = map target_pid (live st)"

definition queued_pids :: "state \<Rightarrow> nat list" where
  "queued_pids st = map r_pid (results_q st)"

text \<open>
  The envelope \<open>_proc_f\<close> makes for a job, the handle \<open>new_process\<close> makes for the job
  number \<open>p\<close> of the sequence \<open>J\<close>, and the envelope of that job.
\<close>

definition envelope :: "pyfun \<Rightarrow> nat \<Rightarrow> pyval list \<times> kwargs \<Rightarrow> retdict" where
  "envelope f p job = last (fst (proc_f f [] p (fst job) (snd job)))"

definition handle :: "(pyval list \<times> kwargs) list \<Rightarrow> nat \<Rightarrow> proc" where
  "handle J p = \<lparr>target_pid = p, target_args = fst (J ! p), target_kwargs = snd (J ! p)\<rparr>"

definition env_at :: "pyfun \<Rightarrow> (pyval list \<times> kwargs) list \<Rightarrow> nat \<Rightarrow> retdict" where
  "env_at f J p = envelope f p (J ! p)"

text \<open>
  The invariant of the scheduler's state. Every handle, every running child and every
  queued envelope is the one of its job (\<open>typed\<close>); and the keys of \<open>processes\<close> are
  distinct and are exactly the jobs that are running or whose envelope waits in the
  queue, each once (\<open>pending\<close>): a job started and not yet collected.
\<close>

definition typed :: "config \<Rightarrow> (pyval list \<times> kwargs) list \<Rightarrow> state \<Rightarrow> bool" where
  "typed cfg J st \<longleftrightarrow>
     (\<forall>x \<in> set (processes st). snd x = handle J (fst x)) \<and>
     (\<forall>w \<in> set (live st). w = handle J (target_pid w)) \<and>
     (\<forall>r \<in> set (results_q st). r = env_at (func cfg) J (r_pid r)) \<and>
     (process_class cfg = FakeProcess \<longrightarrow> live st = [])"

definition pending :: "state \<Rightarrow> bool" where
  "pending st \<longleftrightarrow>
     distinct (pids st) \<and>
     distinct (live_pids st @ queued_pids st) \<and>
     set (live_pids st) \<union> set (queued_pids st) = set (pids st)"

definition pool :: "config \<Rightarrow> (pyval list \<times> kwargs) list \<Rightarrow> state \<Rightarrow> bool" where
  "pool cfg J st \<longleftrightarrow> typed cfg J st \<and> pending st"

text \<open>
  After every prefix of the calls, \<open>processes\<close> holds at most \<open>m\<close> keys.
\<close>

definition bounded :: "int \<Rightarrow> event list \<Rightarrow> bool" where
  "bounded m tr \<longleftrightarrow> (\<forall>pre. prefix pre tr \<longrightarrow> int (length (handles_after pre)) \<le> m)"

fun is_Insert :: "event \<Rightarrow> bool" where
  "is_Insert (Insert p) = True"
| "is_Insert e = False"

text \<open>
  The bookkeeping of the loop when \<open>n\<close> jobs have been admitted: the jobs collected so far
  and those in \<open>processes\<close> are the first \<open>n\<close>, each once; every envelope received is the
  one of its job; \<open>results\<close> holds the results of the successes received, in that order;
  under \<open>forward_exceptions\<close> no failure has been received; with a limit of 1 the jobs
  were collected in submission order; a handle joined or deleted belongs to a collected
  job; and the trace accounts for the keys of \<open>processes\<close> within the limit.
\<close>

definition collected :: "state \<Rightarrow> nat list" where
  "collected st = map r_pid (received (trace st))"

definition acct :: "config \<Rightarrow> (pyval list \<times> kwargs) list \<Rightarrow> nat \<Rightarrow> state \<Rightarrow> bool" where
  "acct cfg J n st \<longleftrightarrow>
     n \<le> length J \<and>
     (\<forall>r \<in> set (received (trace st)). r = env_at (func cfg) J (r_pid r)) \<and>
     distinct (collected st @ pids st) \<and>
     set (collected st) \<union> set (pids st) = {..<n} \<and>
     results st = map r_result (filter (\<lambda>r. r_exception r = None) (received (trace st))) \<and>
     (forward_exceptions cfg \<longrightarrow> (\<forall>r \<in> set (received (trace st)). r_exception r = None)) \<and>
     (max_processes cfg = 1 \<longrightarrow> collected st @ pids st = [0..<n]) \<and>
     (\<forall>p. Join p \<in> set (trace st) \<or> Delete p \<in> set (trace st) \<longrightarrow> p \<in> set (collected st)) \<and>
     handles_after (trace st) = pids st \<and>
     bounded (max_processes cfg) (trace st)"

text \<open>
  How a run ends on line 112: the envelope \<open>r\<close> of some job is received with an exception,
  it is the first failure received, \<open>terminate\<close> is called on every handle of \<open>processes\<close>,
  and the handle of \<open>r\<close> is still there, never joined.
\<close>

definition failed :: "config \<Rightarrow> (pyval list \<times> kwargs) list \<Rightarrow> error \<Rightarrow> state \<Rightarrow> bool" where
  "failed cfg J err st \<longleftrightarrow>
     forward_exceptions cfg \<and>
     (\<exists>r e s tr.
        err = Propagated (e\<lparr>exc_args := exc_args e @ [PyStr s]\<rparr>) \<and>
        r_exception r = Some (e, s) \<and>
        r_pid r < length J \<and> r = env_at (func cfg) J (r_pid r) \<and>
        trace st = tr @ Receive r # map Terminate (pids st) \<and>
        (\<forall>x \<in> set (received tr). r_exception x = None) \<and>
        r_pid r \<in> set (pids st) \<and>
        Join (r_pid r) \<notin> set (trace st) \<and> Delete (r_pid r) \<notin> set (trace st)) \<and>
     handles_after (trace st) = pids st \<and>
     bounded (max_processes cfg) (trace st)"

text \<open>
  How a run ends in \<open>start\<close> under \<open>FakeProcess\<close>: the call of some job raised past line
  58, and that error is the one raised; under \<open>forward_exceptions\<close> no failure has been
  received before.
\<close>

definition escaped_end :: "config \<Rightarrow> (pyval list \<times> kwargs) list \<Rightarrow> error \<Rightarrow> state \<Rightarrow> bool" where
  "escaped_end cfg J err st \<longleftrightarrow>
     process_class cfg = FakeProcess \<and>
     (\<exists>i e. i < length J \<and> func cfg (fst (J ! i)) (snd (J ! i)) = Escaped e \<and> err = Unhandled e) \<and>
     (forward_exceptions cfg \<longrightarrow> (\<forall>r \<in> set (received (trace st)). r_exception r = None)) \<and>
     handles_after (trace st) = pids st \<and>
     bounded (max_processes cfg) (trace st)"

text \<open>
  What a loop ends in, for a positive limit: it goes on with its invariants, or it has
  raised in one of the two ways above; it never blocks.
\<close>

definition post :: "config \<Rightarrow> (pyval list \<times> kwargs) list \<Rightarrow> unit outcome \<times> state \<Rightarrow> bool" where
  "post cfg J res \<longleftrightarrow>
     (case res of
        (Returns u, st) \<Rightarrow> pool cfg J st \<and> acct cfg J (length J) st
      | (Raises err, st) \<Rightarrow> failed cfg J err st \<or> escaped_end cfg J err st
      | (Blocks, st) \<Rightarrow> False)"

definition mk_config :: "process_class \<Rightarrow> pyfun \<Rightarrow> int \<Rightarrow> bool \<Rightarrow> config" where
  "mk_config pc f m fwd = \<lparr>process_class = pc, func = f, max_processes = m, forward_exceptions = fwd\<rparr>"




section \<open>The loop keeps its invariants\<close>

lemma proc_f_envelope: "fst (proc_f f q p a k) = q @ [envelope f p (a, k)]"
  by (simp add: proc_f_def envelope_def Let_def split: call.splits)

lemma proc_f_leaving:
  "snd (proc_f f q p a k) = (case f a k of Escaped e \<Rightarrow> Some e | _ \<Rightarrow> None)"
  by (simp add: proc_f_def Let_def split: call.splits)

lemma envelope_pid [simp]: "r_pid (envelope f p job) = p"
  by (simp add: envelope_def proc_f_def Let_def split: call.splits)

lemma env_at_pid [simp]: "r_pid (env_at f J p) = p"
  by (simp add: env_at_def)

lemma handle_pid [simp]: "target_pid (handle J p) = p"
  by (simp add: handle_def)

lemma finish_handle:
  "finish f (handle J p) st = st\<lparr>results_q := results_q st @ [env_at f J p],
                     live := filter (\<lambda>v. target_pid v \<noteq> p) (live st)\<rparr>"
  by (simp add: finish_def proc_f_envelope env_at_def handle_def)

lemma map_pid_filter:
  "map target_pid (filter (\<lambda>v. target_pid v \<noteq> p) ws) = removeAll p (map target_pid ws)"
  by (induction ws) auto

lemma pending_move:
  assumes "distinct (lp @ qp)" "p \<in> set lp"
  shows "distinct (removeAll p lp @ qp @ [p])" "set (removeAll p lp) \<union> set (qp @ [p]) = set lp \<union> set qp"
  using assms by (auto simp: distinct_removeAll)

lemma pool_finish:
  assumes "pool cfg J st" "w \<in> set (live st)"
  shows "pool cfg J (finish (func cfg) w st)"
proof -
  from assms have w: "w = handle J (target_pid w)"
    unfolding pool_def typed_def by blast
  let ?p = "target_pid w"
  have fin: "finish (func cfg) w st = st\<lparr>results_q := results_q st @ [env_at (func cfg) J ?p],
                     live := filter (\<lambda>v. target_pid v \<noteq> ?p) (live st)\<rparr>" (is "_ = ?st'")
    using finish_handle[of "func cfg" J ?p st] w by simp
  have p: "?p \<in> set (live_pids st)" using assms(2) by (simp add: live_pids_def)
  have lq: "live_pids ?st' = removeAll ?p (live_pids st)" "queued_pids ?st' = queued_pids st @ [?p]"
      "pids ?st' = pids st"
    by (simp_all add: live_pids_def queued_pids_def pids_def map_pid_filter)
  have "typed cfg J ?st'"
    using assms(1) unfolding pool_def typed_def by auto
  moreover have "pending ?st'"
    using assms(1) pending_move[OF _ p, of "queued_pids st"] unfolding pool_def pending_def lq
    by simp
  ultimately show ?thesis unfolding fin pool_def by simp
qed

lemma pool_finish_some: "pool cfg J st \<Longrightarrow> pool cfg J (finish_some (func cfg) cs st)"
proof (induction cs arbitrary: st)
  case Nil then show ?case by simp
next
  case (Cons c cs)
  show ?case
  proof (cases "live st = []")
    case True then show ?thesis using Cons.prems by simp
  next
    case False
    then have "live st ! (c mod length (live st)) \<in> set (live st)" by simp
    from pool_finish[OF Cons.prems this] Cons.IH False show ?thesis by simp
  qed
qed

lemma finish_trace [simp]: "trace (finish f w st) = trace st" "results (finish f w st) = results st"
  by (simp_all add: finish_def)

lemma finish_some_trace [simp]: "trace (finish_some f cs st) = trace st" "results (finish_some f cs st) = results st"
  by (induction f cs st rule: finish_some.induct) simp_all

lemma finish_some_nonempty:
  "live st \<noteq> [] \<Longrightarrow> results_q (finish_some f [c] st) \<noteq> []"
  by (simp add: finish_def proc_f_envelope)

lemma pool_clock [simp]: "pool cfg J (st\<lparr>clock := n\<rparr>) = pool cfg J st"
  by (simp add: pool_def typed_def pending_def pids_def live_pids_def queued_pids_def)

text \<open>What a receive gives when some worker is still uncollected.\<close>

lemma q_get_pool:
  assumes "pool cfg J st" "pids st \<noteq> []"
  shows "\<exists>r q st1. q_get (process_class cfg) (func cfg) st = Some (r, st1\<lparr>results_q := q\<rparr>) \<and>
           pool cfg J st1 \<and> results_q st1 = r # q \<and>
           processes st1 = processes st \<and> trace st1 = trace st \<and> results st1 = results st"
proof (cases "process_class cfg")
  case FakeProcess
  with assms have "live st = []" "results_q st \<noteq> []"
    unfolding pool_def typed_def pending_def live_pids_def queued_pids_def by auto
  then obtain r q where rq: "results_q st = r # q" by (cases "results_q st") auto
  have "q_get (process_class cfg) (func cfg) st = Some (r, st\<lparr>results_q := q\<rparr>)"
    using FakeProcess rq by simp
  with assms(1) rq show ?thesis by blast
next
  case (Process sched)
  define st1 where "st1 = finish_some (func cfg) (sched (clock st)) (st\<lparr>clock := clock st + 1\<rparr>)"
  define st2 where "st2 = (if results_q st1 = [] then finish_some (func cfg) [0] st1 else st1)"
  have p1: "pool cfg J st1" unfolding st1_def using assms(1) by (intro pool_finish_some) simp
  then have p2: "pool cfg J st2" unfolding st2_def by (simp add: pool_finish_some del: finish_some.simps)
  have k1: "processes st1 = processes st" "trace st1 = trace st" "results st1 = results st"
    unfolding st1_def by simp_all
  then have k2: "processes st2 = processes st" "trace st2 = trace st" "results st2 = results st"
    unfolding st2_def by (simp_all del: finish_some.simps)
  have "results_q st2 \<noteq> []"
  proof (cases "results_q st1 = []")
    case True
    with p1 assms(2) k1 have "live st1 \<noteq> []"
      unfolding pool_def pending_def live_pids_def queued_pids_def pids_def by auto
    from finish_some_nonempty[OF this, of "func cfg" 0] show ?thesis
      unfolding st2_def using True by (simp del: finish_some.simps)
  next
    case False then show ?thesis unfolding st2_def by simp
  qed
  then obtain r q where rq: "results_q st2 = r # q" by (cases "results_q st2") auto
  have "q_get (process_class cfg) (func cfg) st =
          (case results_q st2 of [] \<Rightarrow> None | r # q \<Rightarrow> Some (r, st2\<lparr>results_q := q\<rparr>))"
    unfolding Process st1_def st2_def by (simp only: q_get.simps Let_def)
  then have "q_get (process_class cfg) (func cfg) st = Some (r, st2\<lparr>results_q := q\<rparr>)"
    by (simp add: rq)
  then show ?thesis using p2 k2 rq by blast
qed

lemma terminate_all_trace:
  "trace (fold (\<lambda>(pid, p). terminate pc p) ps st) = trace st @ map (\<lambda>x. Terminate (target_pid (snd x))) ps"
  by (induction ps arbitrary: st) (auto simp: case_prod_beta, (cases pc; simp)+)

lemma terminate_all_keeps [simp]:
  "processes (fold (\<lambda>(pid, p). terminate pc p) ps st) = processes st"
  "results (fold (\<lambda>(pid, p). terminate pc p) ps st) = results st"
  by (induction ps arbitrary: st) (auto simp: case_prod_beta, (cases pc; simp)+)

lemma map_of_handle:
  assumes "\<forall>x \<in> set ps. snd x = handle J (fst x)" "p \<in> fst ` set ps"
  shows "map_of ps p = Some (handle J p)"
  using assms by (induction ps) auto

lemma pids_delete: "map fst (AList.delete p ps) = removeAll p (map fst ps)"
  by (induction ps) auto

lemma filter_absent: "p \<notin> target_pid ` set ws \<Longrightarrow> filter (\<lambda>v. target_pid v \<noteq> p) ws = ws"
  by (induction ws) auto

lemma release_parts:
  assumes "map_of (processes st) (r_pid r) = Some p" "target_pid p \<notin> target_pid ` set (live st)"
  shows "\<exists>st'. release cfg r st = (Returns (), st') \<and>
           processes st' = AList.delete (r_pid r) (processes st) \<and>
           live st' = filter (\<lambda>v. target_pid v \<noteq> target_pid p) (live st) \<and>
           results_q st' = results_q st \<and> results st' = results st \<and>
           trace st' = trace st @ [Join (target_pid p), Terminate (target_pid p), Delete (r_pid r)]"
  using assms by (cases "process_class cfg") (simp_all add: release_def Let_def filter_absent)

lemma release_pool:
  assumes "pool cfg J st1" "results_q st1 = r # q"
    "processes st = processes st1" "live st = live st1" "results_q st = q"
  shows "\<exists>st'. release cfg r st = (Returns (), st') \<and> pool cfg J st' \<and>
           pids st' = removeAll (r_pid r) (pids st1) \<and>
           trace st' = trace st @ [Join (r_pid r), Terminate (r_pid r), Delete (r_pid r)] \<and>
           results st' = results st"
proof -
  let ?p = "r_pid r"
  have ty: "typed cfg J st1" and pe: "pending st1" using assms(1) by (simp_all add: pool_def)
  have pq: "?p \<in> set (queued_pids st1)" using assms(2) by (simp add: queued_pids_def)
  then have pin: "?p \<in> set (pids st1)" using pe by (auto simp: pending_def)
  have pnl: "?p \<notin> set (live_pids st1)" using pe pq by (auto simp: pending_def)
  have look: "map_of (processes st) ?p = Some (handle J ?p)"
    using map_of_handle[of "processes st1" J ?p] ty pin assms(3) by (simp add: typed_def pids_def)
  have nolive: "filter (\<lambda>v. target_pid v \<noteq> ?p) (live st1) = live st1"
    using pnl unfolding live_pids_def filter_id_conv set_map by (metis imageI)
  have notin: "target_pid (handle J ?p) \<notin> target_pid ` set (live st)"
    using pnl assms(4) by (simp add: live_pids_def)
  from release_parts[OF look notin, of cfg] obtain st' where
    rel: "release cfg r st = (Returns (), st')"
    and c: "processes st' = AList.delete ?p (processes st1)" "live st' = live st1"
       "results_q st' = q" "results st' = results st"
       "trace st' = trace st @ [Join ?p, Terminate ?p, Delete ?p]"
    using assms(3,4,5) nolive by auto
  have "typed cfg J st'"
    using ty assms(2) unfolding typed_def c by (auto simp: AList.delete_eq)
  moreover have d: "distinct (live_pids st1)" "distinct (queued_pids st1)"
      "set (live_pids st1) \<inter> set (queued_pids st1) = {}"
    using pe by (auto simp: pending_def)
  have "pending st'"
    using pe pnl d unfolding pending_def
    by (auto simp: pids_def live_pids_def queued_pids_def c pids_delete distinct_removeAll assms(2))
  ultimately show ?thesis using rel c
    by (auto simp: pool_def pids_def pids_delete)
qed

lemma collect_result_pool:
  assumes "pool cfg J st" "pids st \<noteq> []"
  obtains (ok) r st' where
      "collect_result cfg st = (Returns (), st')" "pool cfg J st'"
      "r_pid r \<in> set (pids st)" "r = env_at (func cfg) J (r_pid r)"
      "pids st' = removeAll (r_pid r) (pids st)"
      "trace st' = trace st @ [Receive r, Join (r_pid r), Terminate (r_pid r), Delete (r_pid r)]"
      "results st' = results st @ (if r_exception r = None then [r_result r] else [])"
      "r_exception r = None \<or> \<not> forward_exceptions cfg"
  | (fail) r e s st' where
      "collect_result cfg st = (Raises (Propagated (e\<lparr>exc_args := exc_args e @ [PyStr s]\<rparr>)), st')"
      "forward_exceptions cfg" "r_exception r = Some (e, s)"
      "r_pid r \<in> set (pids st)" "r = env_at (func cfg) J (r_pid r)"
      "processes st' = processes st"
      "trace st' = trace st @ Receive r # map Terminate (pids st)"
      "results st' = results st"
proof -
  from q_get_pool[OF assms] obtain r q st1 where
    g: "q_get (process_class cfg) (func cfg) st = Some (r, st1\<lparr>results_q := q\<rparr>)"
    and p1: "pool cfg J st1" and rq: "results_q st1 = r # q"
    and k: "processes st1 = processes st" "trace st1 = trace st" "results st1 = results st"
    by blast
  let ?p = "r_pid r"
  have pin: "?p \<in> set (pids st)"
    using p1 rq k by (auto simp: pool_def pending_def queued_pids_def pids_def)
  have renv: "r = env_at (func cfg) J ?p"
    using p1 rq by (auto simp: pool_def typed_def)
  have ps: "pids st1 = pids st" using k by (simp add: pids_def)
  let ?st0 = "st1\<lparr>results_q := q\<rparr>"
  let ?stR = "?st0\<lparr>trace := trace ?st0 @ [Receive r]\<rparr>"
  show ?thesis
  proof (cases "r_exception r")
    case None
    let ?st = "?stR\<lparr>results := results ?stR @ [r_result r]\<rparr>"
    have c: "collect_result cfg st = release cfg r ?st"
      using g None by (simp add: collect_result_def Let_def)
    from release_pool[OF p1 rq, of ?st]
    obtain st' where "release cfg r ?st = (Returns (), st')" "pool cfg J st'"
      "pids st' = removeAll ?p (pids st1)"
      "trace st' = trace ?st @ [Join ?p, Terminate ?p, Delete ?p]"
      "results st' = results ?st"
      by auto
    then show ?thesis using ok[of st' r] c pin renv None ps k by simp
  next
    case (Some es)
    obtain e s where es: "es = (e, s)" by (cases es)
    show ?thesis
    proof (cases "forward_exceptions cfg")
      case False
      have c: "collect_result cfg st = release cfg r ?stR"
        using g Some es False by (simp add: collect_result_def Let_def)
      from release_pool[OF p1 rq, of ?stR]
      obtain st' where "release cfg r ?stR = (Returns (), st')" "pool cfg J st'"
        "pids st' = removeAll ?p (pids st1)"
        "trace st' = trace ?stR @ [Join ?p, Terminate ?p, Delete ?p]"
        "results st' = results ?stR"
        by auto
      then show ?thesis using ok[of st' r] c pin renv Some False ps k by simp
    next
      case True
      let ?st' = "fold (\<lambda>(pid, p). terminate (process_class cfg) p) (processes ?stR) ?stR"
      have c: "collect_result cfg st = (Raises (Propagated (e\<lparr>exc_args := exc_args e @ [PyStr s]\<rparr>)), ?st')"
        using g Some es True by (simp add: collect_result_def Let_def)
      have "map (\<lambda>x. Terminate (target_pid (snd x))) (processes st) = map Terminate (pids st)"
        using p1 k by (auto simp: pool_def typed_def pids_def)
      then have t: "trace ?st' = trace st @ Receive r # map Terminate (pids st)"
        using k by (simp add: terminate_all_trace)
      show ?thesis
        using fail[OF c True _ pin renv _ t] Some es k by simp
    qed
  qed
qed

lemma pids_update_fresh: "p \<notin> fst ` set ps \<Longrightarrow> map fst (AList.update p v ps) = map fst ps @ [p]"
  by (induction ps) auto

lemma set_update_fresh: "p \<notin> fst ` set ps \<Longrightarrow> set (AList.update p v ps) = insert (p, v) (set ps)"
  by (induction ps) auto

text \<open>
  \<open>new_process\<close> either starts the job and records its handle, or, under \<open>FakeProcess\<close>
  with a call that raises past line 58, leaves with that error after the envelope is put.
\<close>

lemma new_process_cases:
  obtains (started) st' where
      "new_process cfg n a k st = (Returns (), st')"
      "process_class cfg = FakeProcess \<longrightarrow> (\<forall>e. func cfg a k \<noteq> Escaped e)"
      "processes st' =
         AList.update n \<lparr>target_pid = n, target_args = a, target_kwargs = k\<rparr> (processes st)"
      "trace st' = trace st @ [Start n, Insert n]"
      "results st' = results st"
      "process_class cfg = FakeProcess \<longrightarrow>
         live st' = live st \<and> results_q st' = results_q st @ [envelope (func cfg) n (a, k)]"
      "process_class cfg \<noteq> FakeProcess \<longrightarrow>
         live st' = live st @ [\<lparr>target_pid = n, target_args = a, target_kwargs = k\<rparr>] \<and>
         results_q st' = results_q st"
  | (escaped) e st' where
      "new_process cfg n a k st = (Raises (Unhandled e), st')"
      "process_class cfg = FakeProcess" "func cfg a k = Escaped e"
      "processes st' = processes st" "trace st' = trace st @ [Start n]"
      "results st' = results st"
proof (cases "process_class cfg")
  case (Process sched)
  then show ?thesis
    by (intro started[of "snd (new_process cfg n a k st)"]) (simp_all add: new_process_def Let_def)
next
  case FakeProcess
  let ?h = "\<lparr>target_pid = n, target_args = a, target_kwargs = k\<rparr>"
  obtain q l where pf: "proc_f (func cfg) (results_q st) n a k = (q, l)"
    by (cases "proc_f (func cfg) (results_q st) n a k")
  have q: "q = results_q st @ [envelope (func cfg) n (a, k)]"
    using proc_f_envelope[of "func cfg" "results_q st" n a k] pf by simp
  have l: "l = (case func cfg a k of Escaped e \<Rightarrow> Some e | _ \<Rightarrow> None)"
    using proc_f_leaving[of "func cfg" "results_q st" n a k] pf by simp
  show ?thesis
  proof (cases l)
    case None
    then have ne: "\<forall>e. func cfg a k \<noteq> Escaped e" using l by (auto split: call.splits)
    show ?thesis
      using FakeProcess pf None q ne
      by (intro started[of "snd (new_process cfg n a k st)"]) (simp_all add: new_process_def Let_def)
  next
    case (Some e)
    then have esc: "func cfg a k = Escaped e" using l by (auto split: call.splits)
    show ?thesis
      using FakeProcess pf Some esc
      by (intro escaped[of e "snd (new_process cfg n a k st)"]) (simp_all add: new_process_def Let_def)
  qed
qed

lemma new_process_pool:
  assumes "pool cfg J st" "n \<notin> set (pids st)" "J ! n = (a, k)"
    and st': "processes st' =
         AList.update n \<lparr>target_pid = n, target_args = a, target_kwargs = k\<rparr> (processes st)"
      "process_class cfg = FakeProcess \<longrightarrow>
         live st' = live st \<and> results_q st' = results_q st @ [envelope (func cfg) n (a, k)]"
      "process_class cfg \<noteq> FakeProcess \<longrightarrow>
         live st' = live st @ [\<lparr>target_pid = n, target_args = a, target_kwargs = k\<rparr>] \<and>
         results_q st' = results_q st"
  shows "pool cfg J st'" and "pids st' = pids st @ [n]"
proof -
  have h: "\<lparr>target_pid = n, target_args = a, target_kwargs = k\<rparr> = handle J n"
    using assms(3) by (simp add: handle_def)
  have fresh: "n \<notin> fst ` set (processes st)" using assms(2) by (simp add: pids_def)
  have ty: "typed cfg J st" and pe: "pending st" using assms(1) by (simp_all add: pool_def)
  have e: "envelope (func cfg) n (a, k) = env_at (func cfg) J n"
    using assms(3) by (simp add: env_at_def)
  show ps: "pids st' = pids st @ [n]"
    using fresh by (simp add: pids_def st'(1) pids_update_fresh)
  have nl: "n \<notin> set (live_pids st)" "n \<notin> set (queued_pids st)"
    using pe assms(2) by (auto simp: pending_def)
  show "pool cfg J st'"
  proof (cases "process_class cfg = FakeProcess")
    case True
    with st'(2) have c: "live st' = live st" "results_q st' = results_q st @ [env_at (func cfg) J n]"
      by (simp_all add: e)
    have "typed cfg J st'"
      using ty fresh True unfolding typed_def
      by (auto simp: st'(1) c set_update_fresh h)
    moreover have "pending st'"
      using pe nl assms(2) unfolding pending_def ps
      by (auto simp: live_pids_def queued_pids_def c)
    ultimately show ?thesis by (simp add: pool_def)
  next
    case False
    with st'(3) have c: "live st' = live st @ [handle J n]" "results_q st' = results_q st"
      by (simp_all add: h)
    have "typed cfg J st'"
      using ty fresh False unfolding typed_def
      by (auto simp: st'(1) c set_update_fresh h)
    moreover have "pending st'"
      using pe nl assms(2) unfolding pending_def ps
      by (auto simp: live_pids_def queued_pids_def c)
    ultimately show ?thesis by (simp add: pool_def)
  qed
qed

lemma pool_init: "pool cfg J init_state"
  by (simp add: pool_def typed_def pending_def pids_def live_pids_def queued_pids_def init_state_def)

lemma received_append [simp]: "received (a @ b) = received a @ received b"
  by (induction a rule: received.induct) simp_all

lemma handles_after_snoc [simp]: "handles_after (tr @ [e]) = apply_event (handles_after tr) e"
  by (simp add: handles_after_def)

lemma handles_after_Nil [simp]: "handles_after [] = []"
  by (simp add: handles_after_def)

lemma bounded_snoc: "bounded m (tr @ [e]) \<longleftrightarrow> bounded m tr \<and> int (length (handles_after (tr @ [e]))) \<le> m"
  unfolding bounded_def by (auto simp: prefix_snoc simp del: handles_after_snoc)

lemma bounded_Nil [simp]: "bounded m [] \<longleftrightarrow> 0 \<le> m"
  by (simp add: bounded_def)

lemma bounded_whole: "bounded m tr \<Longrightarrow> int (length (handles_after tr)) \<le> m"
  by (simp add: bounded_def)

lemma length_removeAll_le: "length (removeAll p ks) \<le> length ks"
  by (induction ks) (auto simp: le_SucI)

lemma apply_event_le: "\<not> is_Insert e \<Longrightarrow> length (apply_event ks e) \<le> length ks"
  by (cases e) (simp_all add: length_removeAll_le)

lemma bounded_append:
  "bounded m tr \<Longrightarrow> \<forall>e \<in> set es. \<not> is_Insert e \<Longrightarrow>
   bounded m (tr @ es) \<and> length (handles_after (tr @ es)) \<le> length (handles_after tr)"
proof (induction es rule: rev_induct)
  case Nil then show ?case by simp
next
  case (snoc e es)
  then have ih: "bounded m (tr @ es)" "length (handles_after (tr @ es)) \<le> length (handles_after tr)"
    and e: "\<not> is_Insert e" by auto
  have l: "length (handles_after ((tr @ es) @ [e])) \<le> length (handles_after (tr @ es))"
    unfolding handles_after_snoc by (rule apply_event_le[OF e])
  moreover have "int (length (handles_after (tr @ es))) \<le> m" using ih(1) by (rule bounded_whole)
  ultimately have "bounded m ((tr @ es) @ [e])" using ih(1) unfolding bounded_snoc by linarith
  with l ih(2) show ?case by (simp only: append_assoc) simp
qed

lemma acct_init: "0 \<le> max_processes cfg \<Longrightarrow> acct cfg J 0 init_state"
  by (simp add: acct_def init_state_def collected_def pids_def)

lemma acct_size: "acct cfg J n st \<Longrightarrow> int (length (pids st)) \<le> max_processes cfg"
  using bounded_whole[of "max_processes cfg" "trace st"] by (simp add: acct_def)

lemma acct_collect:
  assumes a: "acct cfg J n st"
    and r: "r_pid r \<in> set (pids st)" "r = env_at (func cfg) J (r_pid r)"
    and st': "pids st' = removeAll (r_pid r) (pids st)"
      "trace st' = trace st @ [Receive r, Join (r_pid r), Terminate (r_pid r), Delete (r_pid r)]"
      "results st' = results st @ (if r_exception r = None then [r_result r] else [])"
    and fw: "r_exception r = None \<or> \<not> forward_exceptions cfg"
  shows "acct cfg J n st'"
proof -
  let ?p = "r_pid r"
  have rec: "received (trace st') = received (trace st) @ [r]" by (simp add: st')
  have col: "collected st' = collected st @ [?p]" by (simp add: collected_def rec)
  have d: "distinct (collected st)" "distinct (pids st)" "set (collected st) \<inter> set (pids st) = {}"
    using a by (auto simp: acct_def)
  have 1: "distinct (collected st' @ pids st')"
    using d r(1) by (auto simp: col st' distinct_removeAll)
  have 2: "set (collected st') \<union> set (pids st') = {..<n}"
    using a r(1) by (auto simp: col st' acct_def)
  have 3: "results st' = map r_result (filter (\<lambda>r. r_exception r = None) (received (trace st')))"
    using a by (simp add: rec st' acct_def)
  have 4: "forward_exceptions cfg \<longrightarrow> (\<forall>r \<in> set (received (trace st')). r_exception r = None)"
    using a fw by (auto simp: rec acct_def)
  have 5: "max_processes cfg = 1 \<longrightarrow> collected st' @ pids st' = [0..<n]"
  proof
    assume m: "max_processes cfg = 1"
    with acct_size[OF a] have "length (pids st) \<le> 1" by simp
    with r(1) have "pids st = [?p]" by (cases "pids st") auto
    with a m show "collected st' @ pids st' = [0..<n]" by (simp add: col st' acct_def)
  qed
  have 6: "\<forall>p. Join p \<in> set (trace st') \<or> Delete p \<in> set (trace st') \<longrightarrow> p \<in> set (collected st')"
    using a by (auto simp: col st' acct_def)
  have tr: "trace st' = (trace st @ [Receive r, Join ?p, Terminate ?p]) @ [Delete ?p]"
    by (simp add: st')
  have h0: "handles_after (trace st @ [Receive r, Join ?p, Terminate ?p]) = handles_after (trace st)"
    by (simp add: handles_after_def)
  have 7: "handles_after (trace st') = pids st'"
    using a unfolding tr handles_after_snoc h0 by (simp add: st' acct_def)
  have 8: "bounded (max_processes cfg) (trace st')"
    using a bounded_append[of "max_processes cfg" "trace st" "[Receive r, Join ?p, Terminate ?p, Delete ?p]"]
    by (simp add: st' acct_def)
  have 0: "n \<le> length J" "\<forall>r \<in> set (received (trace st')). r = env_at (func cfg) J (r_pid r)"
    using a r(2) by (auto simp: rec acct_def)
  show ?thesis
    unfolding acct_def using 0 1 2 3 4 5 6 7 8 by blast
qed

lemma acct_new:
  assumes a: "acct cfg J n st" and n: "n < length J"
    and room: "int (length (pids st)) < max_processes cfg"
    and st': "pids st' = pids st @ [n]" "trace st' = trace st @ [Start n, Insert n]"
      "results st' = results st"
  shows "acct cfg J (Suc n) st'"
proof -
  have rec: "received (trace st') = received (trace st)" by (simp add: st')
  have col: "collected st' = collected st" by (simp add: collected_def rec)
  have fresh: "n \<notin> set (collected st)" "n \<notin> set (pids st)"
    using a by (auto simp: acct_def)
  have 1: "distinct (collected st' @ pids st')"
    using a fresh by (auto simp: col st' acct_def)
  have 2: "set (collected st') \<union> set (pids st') = {..<Suc n}"
    using a by (auto simp: col st' acct_def lessThan_Suc)
  have 5: "max_processes cfg = 1 \<longrightarrow> collected st' @ pids st' = [0..<Suc n]"
    using a by (simp add: col st' acct_def)
  have 6: "\<forall>p. Join p \<in> set (trace st') \<or> Delete p \<in> set (trace st') \<longrightarrow> p \<in> set (collected st')"
    using a by (auto simp: col st' acct_def)
  have tr: "trace st' = (trace st @ [Start n]) @ [Insert n]" by (simp add: st')
  have h0: "handles_after (trace st @ [Start n]) = handles_after (trace st)" by simp
  have 7: "handles_after (trace st') = pids st'"
    using a fresh unfolding tr handles_after_snoc h0 by (simp add: st' acct_def)
  have b0: "bounded (max_processes cfg) (trace st @ [Start n])"
    using a bounded_append[of "max_processes cfg" "trace st" "[Start n]"] by (simp add: acct_def)
  have "int (length (handles_after (trace st'))) \<le> max_processes cfg"
    using room unfolding 7 st'(1) by simp
  then have 8: "bounded (max_processes cfg) (trace st')"
    using b0 bounded_snoc[of "max_processes cfg" "trace st @ [Start n]" "Insert n"]
    by (simp only: tr)
  show ?thesis
    unfolding acct_def rec using a n 1 2 5 6 7 8 by (simp add: acct_def st')
qed

lemma foldl_terminate: "foldl apply_event ks (map Terminate ps) = ks"
  by (induction ps) simp_all

lemma handles_after_fail:
  "handles_after (tr @ Receive r # map Terminate ps) = handles_after tr"
  by (simp add: handles_after_def foldl_terminate)

lemma collect_step:
  assumes p: "pool cfg J st" and a: "acct cfg J n st" and ne: "pids st \<noteq> []"
  shows "(\<exists>st'. collect_result cfg st = (Returns (), st') \<and> pool cfg J st' \<and> acct cfg J n st' \<and>
             Suc (length (pids st')) = length (pids st)) \<or>
         (\<exists>err st'. collect_result cfg st = (Raises err, st') \<and> failed cfg J err st')"
  using p ne
proof (cases rule: collect_result_pool)
  case (ok r st')
  have "acct cfg J n st'" using acct_collect[OF a ok(3,4,5,6,7,8)] .
  moreover have "distinct (pids st)" using p by (simp add: pool_def pending_def)
  then have "removeAll (r_pid r) (pids st) = remove1 (r_pid r) (pids st)"
    by (simp add: distinct_remove1_removeAll)
  moreover have "0 < length (pids st)" using ne by simp
  ultimately have "Suc (length (pids st')) = length (pids st)"
    using ok(3) unfolding ok(5) by (simp add: length_remove1)
  moreover note \<open>acct cfg J n st'\<close>
  ultimately show ?thesis using ok(1,2) by blast
next
  case (fail r e s st')
  let ?p = "r_pid r"
  have ps: "pids st' = pids st" using fail(6) by (simp add: pids_def)
  have lt: "?p < length J" using a fail(4) by (auto simp: acct_def)
  have nc: "?p \<notin> set (collected st)" using a fail(4) by (auto simp: acct_def)
  then have nj: "Join ?p \<notin> set (trace st)" "Delete ?p \<notin> set (trace st)"
    using a by (auto simp: acct_def)
  have nj': "Join ?p \<notin> set (trace st')" "Delete ?p \<notin> set (trace st')"
    using nj by (auto simp: fail(7))
  have ok: "\<forall>x \<in> set (received (trace st)). r_exception x = None"
    using a fail(2) by (simp add: acct_def)
  have h: "handles_after (trace st') = pids st'"
    using a by (simp add: fail(7) handles_after_fail ps acct_def)
  have b: "bounded (max_processes cfg) (trace st')"
    using a bounded_append[of "max_processes cfg" "trace st" "Receive r # map Terminate (pids st)"]
    by (auto simp: fail(7) acct_def)
  have "failed cfg J (Propagated (e\<lparr>exc_args := exc_args e @ [PyStr s]\<rparr>)) st'"
    unfolding failed_def using fail(2,3,4,5) lt nj' ok h b fail(7) ps by auto
  then show ?thesis using fail(1) by blast
qed

lemma drop_Cons_nth: "drop n J = x # xs \<Longrightarrow> n < length J \<and> J ! n = x \<and> xs = drop (Suc n) J"
proof -
  assume d: "drop n J = x # xs"
  have n: "n < length J"
  proof (rule ccontr)
    assume "\<not> n < length J"
    then have "drop n J = []" by simp
    with d show False by simp
  qed
  from Cons_nth_drop_Suc[OF n] d show ?thesis using n by simp
qed

lemma admit_post:
  assumes "pool cfg J st" "acct cfg J n st" "jobs = drop n J" "n \<le> length J"
    and m: "1 \<le> max_processes cfg"
  shows "post cfg J (admit cfg n jobs st)"
  using assms(1-4)
proof (induction jobs arbitrary: n st)
  case Nil
  then have "n = length J" by simp
  with Nil show ?case by (simp add: post_def)
next
  case (Cons job jobs)
  obtain a k where job: "job = (a, k)" by (cases job)
  from drop_Cons_nth[OF Cons.prems(3)[symmetric]]
  have n: "n < length J" "J ! n = (a, k)" "jobs = drop (Suc n) J" by (auto simp: job)
  have step: "post cfg J (case new_process cfg n a k s of
             (Returns u', st2) \<Rightarrow> admit cfg (n + 1) jobs st2
           | (Raises e, st2) \<Rightarrow> (Raises e, st2)
           | (Blocks, st2) \<Rightarrow> (Blocks, st2))"
    if "pool cfg J s" "acct cfg J n s" "int (length (pids s)) < max_processes cfg" for s
  proof (cases rule: new_process_cases[of cfg n a k s])
    case (started st')
    have f: "n \<notin> set (pids s)" using that(2) by (auto simp: acct_def)
    from new_process_pool[OF that(1) f n(2) started(3,6,7)]
    have p': "pool cfg J st'" "pids st' = pids s @ [n]" by auto
    have a': "acct cfg J (Suc n) st'"
      using acct_new[OF that(2) n(1) that(3) p'(2) started(4,5)] .
    show ?thesis using Cons.IH[OF p'(1) a' n(3)] n(1) started(1) by simp
  next
    case (escaped e st')
    have ps: "pids st' = pids s" using escaped(4) by (simp add: pids_def)
    have "handles_after (trace st') = pids st'"
      using that(2) by (simp add: escaped(5) ps acct_def)
    moreover have "bounded (max_processes cfg) (trace st')"
      using that(2) bounded_append[of "max_processes cfg" "trace s" "[Start n]"]
      by (simp add: escaped(5) acct_def)
    moreover have "forward_exceptions cfg \<longrightarrow> (\<forall>r \<in> set (received (trace st')). r_exception r = None)"
      using that(2) by (simp add: escaped(5) acct_def)
    moreover have "\<exists>i e'. i < length J \<and> func cfg (fst (J ! i)) (snd (J ! i)) = Escaped e' \<and>
                     Unhandled e = Unhandled e'"
      using escaped(3) n(1,2) by (intro exI[of _ n] exI[of _ e]) simp
    ultimately have "escaped_end cfg J (Unhandled e) st'"
      unfolding escaped_end_def using escaped(2) by blast
    then show ?thesis using escaped(1) by (simp add: post_def)
  qed
  show ?case
  proof (cases "int (length (processes st)) \<ge> max_processes cfg")
    case False
    then have "int (length (pids st)) < max_processes cfg" by (simp add: pids_def)
    from step[OF Cons.prems(1,2) this] False show ?thesis by (simp add: job)
  next
    case True
    have sz: "int (length (pids st)) = max_processes cfg"
      using acct_size[OF Cons.prems(2)] True by (simp add: pids_def)
    then have ne: "pids st \<noteq> []" using m by auto
    from collect_step[OF Cons.prems(1,2) ne] show ?thesis
    proof (elim disjE exE conjE)
      fix st' assume c: "collect_result cfg st = (Returns (), st')"
        and p': "pool cfg J st'" and a': "acct cfg J n st'"
        and l: "Suc (length (pids st')) = length (pids st)"
      from l sz have "int (length (pids st')) < max_processes cfg" by linarith
      from step[OF p' a' this] True c show ?thesis by (simp add: job)
    next
      fix err st' assume c: "collect_result cfg st = (Raises err, st')"
        and f: "failed cfg J err st'"
      then show ?thesis using True by (simp add: job post_def)
    qed
  qed
qed

lemma drain_post:
  assumes "pool cfg J st" "acct cfg J (length J) st"
  shows "post cfg J (drain cfg st) \<and> (\<forall>u st'. drain cfg st = (Returns u, st') \<longrightarrow> pids st' = [])"
  using assms
proof (induction cfg st rule: drain.induct)
  case (1 cfg st)
  show ?case
  proof (cases "length (processes st) > 0")
    case False
    then have "drain cfg st = (Returns (), st)" by (simp add: drain.simps)
    with False 1(2,3) show ?thesis by (simp add: post_def pids_def)
  next
    case True
    then have ne: "pids st \<noteq> []" by (simp add: pids_def)
    from collect_step[OF 1(2,3) ne] show ?thesis
    proof (elim disjE exE conjE)
      fix st' assume c: "collect_result cfg st = (Returns (), st')"
        and p': "pool cfg J st'" and a': "acct cfg J (length J) st'"
      have "drain cfg st = drain cfg st'" using True c by (subst drain.simps) simp
      with 1(1)[OF True c[symmetric] refl p' a'] show ?thesis by simp
    next
      fix err st' assume c: "collect_result cfg st = (Raises err, st')"
        and f: "failed cfg J err st'"
      have "drain cfg st = (Raises err, st')" using True c by (subst drain.simps) simp
      with f show ?thesis by (simp add: post_def)
    qed
  qed
qed

lemma envelope_eq:
  "envelope f p (a, k) =
     (case f a k of
        Returned v \<Rightarrow> \<lparr>r_pid = p, r_exception = None, r_result = v\<rparr>
      | Raised e tb \<Rightarrow> \<lparr>r_pid = p, r_exception = Some (e, str_join [CHR 0x0A] tb), r_result = PyNone\<rparr>
      | Escaped e \<Rightarrow> \<lparr>r_pid = p, r_exception = None, r_result = PyNone\<rparr>)"
  by (simp add: envelope_def proc_f_def Let_def split: call.splits)

lemma envelope_ok: "r_exception (envelope f p job) = None \<longleftrightarrow> \<not> raised (f (fst job) (snd job))"
  by (cases job) (simp add: envelope_eq split: call.splits)

lemma payloads_enumerate:
  "map r_result (filter (\<lambda>r. r_exception r = None) (map (\<lambda>(p, j). envelope f p j) (enumerate n J))) = payloads f J"
  by (induction J arbitrary: n) (auto simp: envelope_eq split: call.splits)

lemma env_at_upt: "map (env_at f J) [0..<length J] = map (\<lambda>(p, j). envelope f p j) (enumerate 0 J)"
  by (rule nth_equalityI) (simp_all add: env_at_def nth_enumerate_eq)

lemma payloads_upt:
  "map r_result (filter (\<lambda>r. r_exception r = None) (map (env_at f J) [0..<length J])) = payloads f J"
  by (simp only: env_at_upt payloads_enumerate)


lemma payloads_all:
  "\<forall>job \<in> set J. returned (f (fst job) (snd job)) \<Longrightarrow>
   length (payloads f J) = length J \<and> (\<forall>i < length J. f (fst (J ! i)) (snd (J ! i)) = Returned (payloads f J ! i))"
proof (induction f J rule: payloads.induct)
  case (1 f) then show ?case by simp
next
  case (2 f a k jobs)
  from 2(4) obtain v where v: "f a k = Returned v" by (cases "f a k") auto
  with 2 have ih: "length (payloads f jobs) = length jobs"
    "\<forall>i < length jobs. f (fst (jobs ! i)) (snd (jobs ! i)) = Returned (payloads f jobs ! i)"
    by auto
  show ?case using v ih by (auto simp: nth_Cons split: nat.splits)
qed

text \<open>What the run ends in, for a positive limit.\<close>

lemma run_post:
  fixes pc f m fwd args
  defines "cfg \<equiv> mk_config pc f m fwd"
  defines "J \<equiv> unpack args"
  assumes m: "1 \<le> m"
  shows "(\<exists>st. run_workers pc f args m fwd = (Returns (results st), st) \<and>
              pool cfg J st \<and> acct cfg J (length J) st \<and> pids st = []) \<or>
         (\<exists>err st. run_workers pc f args m fwd = (Raises err, st) \<and>
              (failed cfg J err st \<or> escaped_end cfg J err st))"
proof -
  have m0: "0 \<le> max_processes cfg" "1 \<le> max_processes cfg" using m by (simp_all add: cfg_def mk_config_def)
  have a0: "acct cfg J 0 init_state" using acct_init[OF m0(1)] .
  have p0: "pool cfg J init_state" by (rule pool_init)
  have ap: "post cfg J (admit cfg 0 J init_state)"
    using admit_post[OF p0 a0 _ _ m0(2)] by simp
  have run: "run_workers pc f args m fwd =
     (case admit cfg 0 J init_state of
           (Raises e, st) \<Rightarrow> (Raises e, st)
         | (Blocks, st) \<Rightarrow> (Blocks, st)
         | (Returns u, st) \<Rightarrow>
             (case drain cfg st of
                (Raises e, st') \<Rightarrow> (Raises e, st')
              | (Blocks, st') \<Rightarrow> (Blocks, st')
              | (Returns u', st') \<Rightarrow> (Returns (results st'), st')))"
    unfolding run_workers_def cfg_def J_def mk_config_def Let_def by (rule refl)
  obtain o1 s1 where a1: "admit cfg 0 J init_state = (o1, s1)" by (cases "admit cfg 0 J init_state")
  show ?thesis
  proof (cases o1)
    case Blocks
    with ap a1 show ?thesis by (simp add: post_def)
  next
    case (Raises e)
    with ap a1 run show ?thesis by (simp add: post_def)
  next
    case (Returns u)
    with ap a1 have ps: "pool cfg J s1" "acct cfg J (length J) s1" by (simp_all add: post_def)
    from drain_post[OF ps] have dp: "post cfg J (drain cfg s1)"
      and de: "\<forall>u st'. drain cfg s1 = (Returns u, st') \<longrightarrow> pids st' = []" by auto
    obtain o2 s2 where a2: "drain cfg s1 = (o2, s2)" by (cases "drain cfg s1")
    show ?thesis
    proof (cases o2)
      case Blocks
      with dp a2 show ?thesis by (simp add: post_def)
    next
      case (Raises e)
      with dp a1 a2 run Returns show ?thesis by (simp add: post_def)
    next
      case r2: (Returns u')
      with dp de a1 a2 run Returns show ?thesis by (simp add: post_def)
    qed
  qed
qed

lemma received_env:
  assumes "\<forall>r \<in> set rs. r = env_at f J (r_pid r)"
  shows "rs = map (env_at f J) (map r_pid rs)"
  using assms by (induction rs) auto

lemma acct_done:
  assumes a: "acct cfg J (length J) st" and e: "pids st = []"
  shows "mset (results st) = mset (payloads (func cfg) J)"
    and "max_processes cfg = 1 \<Longrightarrow> results st = payloads (func cfg) J"
    and "forward_exceptions cfg \<Longrightarrow> \<forall>job \<in> set J. \<not> raised (func cfg (fst job) (snd job))"
proof -
  let ?f = "func cfg"
  let ?ok = "\<lambda>r. r_exception r = None"
  have rec: "received (trace st) = map (env_at ?f J) (collected st)"
    unfolding collected_def using a by (intro received_env) (simp add: acct_def)
  have res: "results st = map r_result (filter ?ok (map (env_at ?f J) (collected st)))"
    using a rec by (simp add: acct_def)
  have d: "distinct (collected st)" "set (collected st) = {..<length J}"
    using a e by (auto simp: acct_def)
  then have ms: "mset (collected st) = mset [0..<length J]"
    by (metis atLeast_upt distinct_upt set_eq_iff_mset_eq_distinct)
  have "mset (results st) = image_mset r_result (filter_mset ?ok (image_mset (env_at ?f J) (mset (collected st))))"
    unfolding res by (simp only: mset_map mset_filter)
  also have "\<dots> = mset (map r_result (filter ?ok (map (env_at ?f J) [0..<length J])))"
    unfolding ms by (simp only: mset_map mset_filter)
  finally show "mset (results st) = mset (payloads ?f J)" by (simp only: payloads_upt)
  show "results st = payloads ?f J" if "max_processes cfg = 1"
  proof -
    have "collected st = [0..<length J]" using a e that by (simp add: acct_def)
    then show ?thesis unfolding res by (simp only: payloads_upt)
  qed
  show "\<forall>job \<in> set J. \<not> raised (?f (fst job) (snd job))" if fw: "forward_exceptions cfg"
  proof
    fix job assume "job \<in> set J"
    then obtain i where i: "i < length J" "J ! i = job" by (auto simp: in_set_conv_nth)
    then have "i \<in> set (collected st)" using d by simp
    then have "env_at ?f J i \<in> set (received (trace st))" unfolding rec by simp
    then have "r_exception (env_at ?f J i) = None" using a fw by (simp add: acct_def)
    then show "\<not> raised (?f (fst job) (snd job))" using i by (simp add: env_at_def envelope_ok)
  qed
qed

lemma failed_job:
  assumes "failed cfg J err st"
  shows "forward_exceptions cfg \<and> (\<exists>job \<in> set J. raised (func cfg (fst job) (snd job)))"
proof -
  from assms obtain r e s where r: "r_exception r = Some (e, s)" "r_pid r < length J"
    "r = env_at (func cfg) J (r_pid r)" and fw: "forward_exceptions cfg"
    unfolding failed_def by blast
  have "r_exception (envelope (func cfg) (r_pid r) (J ! r_pid r)) \<noteq> None"
    using r by (metis env_at_def option.distinct(1))
  then have "raised (func cfg (fst (J ! r_pid r)) (snd (J ! r_pid r)))"
    by (simp add: envelope_ok)
  with r(2) fw show ?thesis by (meson nth_mem)
qed

lemma escaped_job:
  assumes "escaped_end cfg J err st"
  shows "process_class cfg = FakeProcess \<and> (\<exists>job \<in> set J. escaped (func cfg (fst job) (snd job)))"
proof -
  from assms obtain i e where i: "i < length J" "func cfg (fst (J ! i)) (snd (J ! i)) = Escaped e"
    and pc: "process_class cfg = FakeProcess"
    unfolding escaped_end_def by blast
  have "escaped (func cfg (fst (J ! i)) (snd (J ! i)))" by (simp add: i(2))
  with i(1) pc show ?thesis by (meson nth_mem)
qed

lemma escaped_parts:
  assumes "escaped_end (mk_config pc f m fwd) J err st"
  shows "pc = FakeProcess"
    and "\<exists>i e. i < length J \<and> f (fst (J ! i)) (snd (J ! i)) = Escaped e \<and> err = Unhandled e"
    and "fwd \<Longrightarrow> \<forall>x \<in> set (received (trace st)). r_exception x = None"
  using assms by (simp_all add: escaped_end_def mk_config_def)

lemma returned_only: "returned c \<Longrightarrow> \<not> raised c \<and> \<not> escaped c"
  by (cases c) simp_all

lemma finish_some_idle: "live st = [] \<Longrightarrow> finish_some f cs st = st"
  by (cases cs) simp_all

lemma run_nonpositive:
  assumes "m \<le> 0"
  shows "run_workers pc f args m fwd = (if unpack args = [] then Returns [] else Blocks, init_state)"
proof (cases "unpack args")
  case Nil
  then show ?thesis
    by (simp add: run_workers_def Let_def init_state_def drain.simps)
next
  case (Cons job jobs)
  obtain a k where job: "job = (a, k)" by (cases job)
  have "q_get pc f init_state = None"
    by (cases pc) (simp_all add: init_state_def Let_def finish_some_idle del: finish_some.simps)
  then have "collect_result (mk_config pc f m fwd) init_state = (Blocks, init_state)"
    by (simp add: collect_result_def mk_config_def)
  then show ?thesis using assms Cons job
    by (simp add: run_workers_def Let_def mk_config_def[symmetric]) (simp add: mk_config_def init_state_def)
qed

lemma run_empty:
  assumes "unpack args = []"
  shows "run_workers pc f args m fwd = (Returns [], init_state)"
  using assms by (simp add: run_workers_def Let_def init_state_def drain.simps)

lemma run_returns_or_escapes:
  assumes m: "1 \<le> m"
    and ok: "\<not> fwd \<or> (\<forall>job \<in> set (unpack args). \<not> raised (f (fst job) (snd job)))"
  shows "(\<exists>st. run_workers pc f args m fwd = (Returns (results st), st) \<and>
             mset (results st) = mset (payloads f (unpack args)) \<and>
             (m = 1 \<longrightarrow> results st = payloads f (unpack args))) \<or>
         (\<exists>err st. run_workers pc f args m fwd = (Raises err, st) \<and>
             escaped_end (mk_config pc f m fwd) (unpack args) err st)"
proof -
  let ?cfg = "mk_config pc f m fwd"
  from run_post[where pc=pc and f=f and fwd=fwd and args=args, OF m] show ?thesis
  proof (elim disjE exE conjE)
    fix st assume r: "run_workers pc f args m fwd = (Returns (results st), st)"
      and a: "acct ?cfg (unpack args) (length (unpack args)) st" and e: "pids st = []"
    from acct_done(1,2)[OF a e] r show ?thesis by (auto simp: mk_config_def)
  next
    fix err st assume "failed ?cfg (unpack args) err st"
    from failed_job[OF this] ok show ?thesis by (auto simp: mk_config_def)
  next
    fix err st assume "run_workers pc f args m fwd = (Raises err, st)"
      "escaped_end ?cfg (unpack args) err st"
    then show ?thesis by blast
  qed
qed

lemma run_returns:
  assumes m: "1 \<le> m"
    and ok: "\<not> fwd \<or> (\<forall>job \<in> set (unpack args). \<not> raised (f (fst job) (snd job)))"
    and inline: "pc = FakeProcess \<longrightarrow> (\<forall>job \<in> set (unpack args). \<not> escaped (f (fst job) (snd job)))"
  shows "\<exists>st. run_workers pc f args m fwd = (Returns (results st), st) \<and>
           mset (results st) = mset (payloads f (unpack args)) \<and>
           (m = 1 \<longrightarrow> results st = payloads f (unpack args))"
proof -
  have "\<not> escaped_end (mk_config pc f m fwd) (unpack args) err st" for err st
    using escaped_job[of "mk_config pc f m fwd" "unpack args" err st] inline
    by (auto simp: mk_config_def)
  with run_returns_or_escapes[OF m ok, of pc] show ?thesis by blast
qed

lemma run_raises_or_escapes:
  assumes m: "1 \<le> m" and bad: "\<exists>job \<in> set (unpack args). raised (f (fst job) (snd job))"
  shows "\<exists>err st. run_workers pc f args m True = (Raises err, st) \<and>
           (failed (mk_config pc f m True) (unpack args) err st \<or>
            escaped_end (mk_config pc f m True) (unpack args) err st)"
proof -
  let ?cfg = "mk_config pc f m True"
  from run_post[where pc=pc and f=f and fwd=True and args=args, OF m] show ?thesis
  proof (elim disjE exE conjE)
    fix st assume a: "acct ?cfg (unpack args) (length (unpack args)) st" and e: "pids st = []"
    have "forward_exceptions ?cfg" by (simp add: mk_config_def)
    from acct_done(3)[OF a e this] bad show ?thesis by (auto simp: mk_config_def)
  next
    fix err st assume "run_workers pc f args m True = (Raises err, st)"
      "failed ?cfg (unpack args) err st"
    then show ?thesis by blast
  next
    fix err st assume "run_workers pc f args m True = (Raises err, st)"
      "escaped_end ?cfg (unpack args) err st"
    then show ?thesis by blast
  qed
qed













lemma received_terminate [simp]: "received (map Terminate ps) = []"
  by (induction ps) simp_all

lemma failed_envelope:
  assumes "failed (mk_config pc f m fwd) J err st"
  shows "\<exists>i e tb tr. i < length J \<and> f (fst (J ! i)) (snd (J ! i)) = Raised e tb \<and>
           err = Propagated (e\<lparr>exc_args := exc_args e @ [PyStr (str_join [CHR 0x0A] tb)]\<rparr>) \<and>
           trace st = tr @ Receive \<lparr>r_pid = i, r_exception = Some (e, str_join [CHR 0x0A] tb), r_result = PyNone\<rparr>
                        # map Terminate (map fst (processes st)) \<and>
           (\<forall>x \<in> set (received tr). r_exception x = None) \<and>
           i \<in> set (map fst (processes st)) \<and>
           Join i \<notin> set (trace st) \<and> Delete i \<notin> set (trace st)"
proof -
  from assms obtain r e s tr where
    err: "err = Propagated (e\<lparr>exc_args := exc_args e @ [PyStr s]\<rparr>)"
    and r: "r_exception r = Some (e, s)" "r_pid r < length J" "r = env_at f J (r_pid r)"
    and t: "trace st = tr @ Receive r # map Terminate (pids st)"
      "\<forall>x \<in> set (received tr). r_exception x = None"
      "r_pid r \<in> set (pids st)" "Join (r_pid r) \<notin> set (trace st)" "Delete (r_pid r) \<notin> set (trace st)"
    unfolding failed_def by (auto simp: mk_config_def)
  let ?i = "r_pid r"
  obtain a k where ak: "J ! ?i = (a, k)" by (cases "J ! ?i")
  have env: "r = envelope f ?i (a, k)" using r(3) ak by (simp add: env_at_def)
  have "r_exception (envelope f ?i (a, k)) \<noteq> None"
    by (metis env r(1) option.distinct(1))
  then have "raised (f a k)" by (simp add: envelope_ok)
  then obtain e' tb where call: "f a k = Raised e' tb"
    by (cases "f a k") auto
  have req: "r = \<lparr>r_pid = ?i, r_exception = Some (e', str_join [CHR 0x0A] tb), r_result = PyNone\<rparr>"
    using env call by (simp add: envelope_eq)
  then have es: "e = e'" "s = str_join [CHR 0x0A] tb" using r(1)
    by (metis retdict.select_convs(2) option.inject prod.inject)+
  have t1: "trace st = tr @ Receive \<lparr>r_pid = ?i, r_exception = Some (e, str_join [CHR 0x0A] tb), r_result = PyNone\<rparr>
                        # map Terminate (map fst (processes st))"
    using t(1) req es by (simp add: pids_def)
  show ?thesis
    using r(2) call ak err es t1 t(2-5) unfolding pids_def
    by (intro exI[of _ ?i] exI[of _ e] exI[of _ tb] exI[of _ tr]) simp
qed

section \<open>The claims\<close>

text \<open>
  C1. For every limit of at least 1, every process class and schedule, and every job
  sequence: if every job's call returns, \<open>schedule_workers\<close> returns a list with one
  payload per job (its length is the number of jobs, and it is the jobs' return values in
  some order). For the empty job sequence it returns the empty list and ends in the
  initial state: no worker was started.
\<close>

theorem every_job_gives_one_payload:
  assumes "1 \<le> max_procs"
    and "\<forall>job \<in> set (unpack args_list). returned (fn (fst job) (snd job))"
  shows "(\<exists>rs. schedule_workers pc fn args_list max_procs fwd = Returns rs \<and>
               length rs = length (unpack args_list) \<and>
               mset rs = mset (payloads fn (unpack args_list))) \<and>
         (unpack args_list = [] \<longrightarrow>
            run_workers pc fn args_list max_procs fwd = (Returns [], init_state))"
proof -
  from assms(2) have ok: "\<not> fwd \<or> (\<forall>job \<in> set (unpack args_list). \<not> raised (fn (fst job) (snd job)))"
    and inl: "pc = FakeProcess \<longrightarrow> (\<forall>job \<in> set (unpack args_list). \<not> escaped (fn (fst job) (snd job)))"
    by (simp_all add: returned_only)
  from run_returns[OF assms(1) ok inl]
  obtain st where r: "run_workers pc fn args_list max_procs fwd = (Returns (results st), st)"
    and ms: "mset (results st) = mset (payloads fn (unpack args_list))" by blast
  have "length (results st) = length (payloads fn (unpack args_list))"
    using ms by (metis size_mset)
  also have "\<dots> = length (unpack args_list)" using payloads_all[OF assms(2)] by simp
  finally have "\<exists>rs. schedule_workers pc fn args_list max_procs fwd = Returns rs \<and>
               length rs = length (unpack args_list) \<and>
               mset rs = mset (payloads fn (unpack args_list))"
    using r ms by (simp add: schedule_workers_def)
  then show ?thesis using run_empty[of args_list pc fn max_procs fwd] by blast
qed

text \<open>
  Three jobs under real processes with a limit of 2; two jobs with keyword arguments
  and no job at all under \<open>FakeProcess\<close>.
\<close>

theorem every_job_gives_one_payload_witness:
  "(\<exists>rs. schedule_workers (Process newest_first) return_args
            (Positional [[PyInt 0], [PyInt 1], [PyInt 2]]) 2 True = Returns rs \<and>
         length rs = 3 \<and>
         mset rs = {#PyTuple [PyInt 0], PyTuple [PyInt 1], PyTuple [PyInt 2]#}) \<and>
   (\<exists>rs. schedule_workers FakeProcess return_all
            (With_kwargs [([PyInt 0], [(''k'', PyInt 0)]), ([PyInt 1], [(''k'', PyInt 1)])]) 2 True
            = Returns rs \<and>
         length rs = 2 \<and>
         mset rs = {#PyTuple [PyTuple [PyInt 0], PyDict [(''k'', PyInt 0)]],
                     PyTuple [PyTuple [PyInt 1], PyDict [(''k'', PyInt 1)]]#}) \<and>
   run_workers FakeProcess return_args (Positional []) 2 True = (Returns [], init_state)"
  using every_job_gives_one_payload[of 2 "Positional [[PyInt 0], [PyInt 1], [PyInt 2]]" return_args
          "Process newest_first" True]
        every_job_gives_one_payload[of 2
          "With_kwargs [([PyInt 0], [(''k'', PyInt 0)]), ([PyInt 1], [(''k'', PyInt 1)])]"
          return_all FakeProcess True]
        every_job_gives_one_payload[of 2 "Positional []" return_args FakeProcess True]
  by (simp add: return_args_def return_all_def numeral_3_eq_3 numeral_2_eq_2)




text \<open>
  C3, as the code has it. When a failure envelope is received and failures are
  propagated, \<open>terminate\<close> is called on every handle in \<open>processes\<close>, the reporting
  worker's included, in the order of the dictionary; then the error is raised. The
  reporting worker's handle is never joined and stays in \<open>processes\<close>. A run in which
  some job's call raises an instance of \<open>Exception\<close> ends this way, unless under
  \<open>FakeProcess\<close> an error outside \<open>Exception\<close> leaves \<open>start\<close> first; then no failure
  envelope has been received at all.
\<close>

theorem failure_terminates_all_handles:
  assumes "1 \<le> max_procs"
    and "\<exists>job \<in> set (unpack args_list). raised (fn (fst job) (snd job))"
  shows "(\<exists>err st r tr.
           run_workers pc fn args_list max_procs True = (Raises err, st) \<and>
           r_exception r \<noteq> None \<and>
           trace st = tr @ Receive r # map Terminate (map fst (processes st)) \<and>
           r_pid r \<in> set (map fst (processes st)) \<and>
           Join (r_pid r) \<notin> set (trace st) \<and> Delete (r_pid r) \<notin> set (trace st)) \<or>
         (pc = FakeProcess \<and>
          (\<exists>i e st.
             i < length (unpack args_list) \<and>
             fn (fst (unpack args_list ! i)) (snd (unpack args_list ! i)) = Escaped e \<and>
             run_workers pc fn args_list max_procs True = (Raises (Unhandled e), st) \<and>
             (\<forall>x \<in> set (received (trace st)). r_exception x = None)))"
proof -
  from run_raises_or_escapes[OF assms, of pc] obtain err st where
    r: "run_workers pc fn args_list max_procs True = (Raises err, st)"
    and alt: "failed (mk_config pc fn max_procs True) (unpack args_list) err st \<or>
              escaped_end (mk_config pc fn max_procs True) (unpack args_list) err st" by blast
  from alt show ?thesis
  proof
    assume f: "failed (mk_config pc fn max_procs True) (unpack args_list) err st"
    from failed_envelope[OF f] obtain i e tb tr where
      x: "trace st = tr @ Receive \<lparr>r_pid = i, r_exception = Some (e, str_join [CHR 0x0A] tb), r_result = PyNone\<rparr>
                          # map Terminate (map fst (processes st))"
         "i \<in> set (map fst (processes st))" "Join i \<notin> set (trace st)" "Delete i \<notin> set (trace st)"
      by blast
    let ?r = "\<lparr>r_pid = i, r_exception = Some (e, str_join [CHR 0x0A] tb), r_result = PyNone\<rparr>"
    have "r_exception ?r \<noteq> None" "r_pid ?r = i" by simp_all
    with r x have "\<exists>err st r tr.
           run_workers pc fn args_list max_procs True = (Raises err, st) \<and>
           r_exception r \<noteq> None \<and>
           trace st = tr @ Receive r # map Terminate (map fst (processes st)) \<and>
           r_pid r \<in> set (map fst (processes st)) \<and>
           Join (r_pid r) \<notin> set (trace st) \<and> Delete (r_pid r) \<notin> set (trace st)"
      by (intro exI[of _ err] exI[of _ st] exI[of _ ?r] exI[of _ tr]) simp
    then show ?thesis by (rule disjI1)
  next
    assume e: "escaped_end (mk_config pc fn max_procs True) (unpack args_list) err st"
    from escaped_parts[OF e] r show ?thesis by blast
  qed
qed

text \<open>
  Two crashing jobs under \<open>FakeProcess\<close> with a limit of 2.
\<close>

theorem failure_terminates_all_handles_witness:
  "(1::int) \<le> 2 \<and>
   (\<exists>job \<in> set (unpack (Positional [[PyInt 0], [PyInt 1]])). raised (crash (fst job) (snd job))) \<and>
   (\<exists>err st r tr.
           run_workers FakeProcess crash (Positional [[PyInt 0], [PyInt 1]]) 2 True = (Raises err, st) \<and>
           r_exception r \<noteq> None \<and>
           trace st = tr @ Receive r # map Terminate (map fst (processes st)) \<and>
           r_pid r \<in> set (map fst (processes st)) \<and>
           Join (r_pid r) \<notin> set (trace st) \<and> Delete (r_pid r) \<notin> set (trace st))"
proof -
  have h1: "(1::int) \<le> 2" by simp
  have h2: "\<exists>job \<in> set (unpack (Positional [[PyInt 0], [PyInt 1]])). raised (crash (fst job) (snd job))"
    by (auto simp: crash_def)
  have ne: "crash a k \<noteq> Escaped e" for a k e by (simp add: crash_def)
  show ?thesis
    using h1 h2 ne failure_terminates_all_handles[OF h1 h2, of FakeProcess] by blast
qed

text \<open>
  C3 as stated fails: with two crashing jobs and a limit of 2, worker 0 reports the
  failure, and the calls that follow are \<open>terminate\<close> on worker 0 and on worker 1; there
  is no \<open>join\<close>, and both handles are still in \<open>processes\<close> when the error is raised.
\<close>

theorem reporter_is_terminated_counterexample:
  "trace (snd (run_workers (Process in_turn) crash (Positional [[PyInt 0], [PyInt 1]]) 2 True)) =
     [Start 0, Insert 0, Start 1, Insert 1,
      Receive \<lparr>r_pid = 0,
               r_exception = Some (\<lparr>exc_class = ''CrashException'', exc_args = [PyStr ''ouch!'']\<rparr>,
                                   ''File multiprocessing_scheduler.py, line 57, in _proc_f'' @ [CHR 0x0A] @
                                   ''File test_multiprocessing_scheduler.py, line 45, in crash''),
               r_result = PyNone\<rparr>,
      Terminate 0, Terminate 1] \<and>
   map fst (processes (snd (run_workers (Process in_turn) crash (Positional [[PyInt 0], [PyInt 1]]) 2 True))) = [0, 1]"
  by code_simp

text \<open>
  C4, as the code has it. With a limit of zero or less no configuration error is raised:
  an empty job sequence returns the empty list, and with at least one job the call
  blocks in the first receive, before any worker is started (the state is the initial
  one).
\<close>

theorem nonpositive_limit_blocks:
  assumes "max_procs \<le> 0"
  shows "run_workers pc fn args_list max_procs fwd =
           (if unpack args_list = [] then Returns [] else Blocks, init_state)"
  using assms by (rule run_nonpositive)

theorem nonpositive_limit_blocks_witness:
  "(0::int) \<le> 0 \<and>
   run_workers FakeProcess return_args (Positional [[PyInt 0], [PyInt 1]]) 0 True = (Blocks, init_state)"
  using nonpositive_limit_blocks[of 0 FakeProcess return_args "Positional [[PyInt 0], [PyInt 1]]" True]
  by simp

text \<open>
  C4 as stated fails: with limit 0 and one job the call raises nothing, it blocks.
\<close>

theorem zero_limit_counterexample:
  "schedule_workers FakeProcess return_args (Positional [[PyInt 0]]) 0 True = Blocks"
  by (simp add: schedule_workers_def run_nonpositive)

text \<open>
  C5. With a limit of 1 and no failing job, the returned list is in submission order:
  its i-th element is what the function returned for the i-th job. This holds for every
  process class and schedule.
\<close>

theorem single_process_keeps_order:
  assumes "\<forall>job \<in> set (unpack args_list). returned (fn (fst job) (snd job))"
  shows "\<exists>rs. schedule_workers pc fn args_list 1 fwd = Returns rs \<and>
              length rs = length (unpack args_list) \<and>
              (\<forall>i < length (unpack args_list).
                 fn (fst (unpack args_list ! i)) (snd (unpack args_list ! i)) = Returned (rs ! i))"
proof -
  have one: "(1::int) \<le> 1" by simp
  from assms have ok: "\<not> fwd \<or> (\<forall>job \<in> set (unpack args_list). \<not> raised (fn (fst job) (snd job)))"
    and inl: "pc = FakeProcess \<longrightarrow> (\<forall>job \<in> set (unpack args_list). \<not> escaped (fn (fst job) (snd job)))"
    by (simp_all add: returned_only)
  from run_returns[OF one ok inl]
  obtain st where r: "run_workers pc fn args_list 1 fwd = (Returns (results st), st)"
    and eq: "results st = payloads fn (unpack args_list)" by blast
  from payloads_all[OF assms] r eq show ?thesis by (simp add: schedule_workers_def)
qed

theorem single_process_keeps_order_witness:
  "schedule_workers (Process newest_first) return_args
     (Positional [[PyInt 0], [PyInt 1], [PyInt 2]]) 1 True =
   Returns [PyTuple [PyInt 0], PyTuple [PyInt 1], PyTuple [PyInt 2]]"
proof -
  let ?jobs = "Positional [[PyInt 0], [PyInt 1], [PyInt 2]]"
  have h: "\<forall>job \<in> set (unpack ?jobs). returned (return_args (fst job) (snd job))"
    by (simp add: return_args_def)
  from single_process_keeps_order[OF h, of "Process newest_first" True]
  obtain rs where rs: "schedule_workers (Process newest_first) return_args ?jobs 1 True = Returns rs"
    and len: "length rs = length (unpack ?jobs)"
    and nth: "\<forall>i < length (unpack ?jobs).
                return_args (fst (unpack ?jobs ! i)) (snd (unpack ?jobs ! i)) = Returned (rs ! i)"
    by blast
  from len obtain a b c where abc: "rs = [a, b, c]"
    by (auto simp: length_Suc_conv)
  from nth[rule_format, of 0] nth[rule_format, of 1] nth[rule_format, of 2]
  have "a = PyTuple [PyInt 0]" "b = PyTuple [PyInt 1]" "c = PyTuple [PyInt 2]"
    by (simp_all add: abc return_args_def)
  with rs abc show ?thesis by simp
qed




text \<open>
  C7. With a positive limit, after every call the coordinator makes (start, insertion,
  receive, join, terminate, deletion) the number of keys in \<open>processes\<close> is at most the
  limit, whatever way the call ends. The keys are followed through the insertions and
  deletions of the trace; at the end they are the keys of \<open>processes\<close>.
\<close>

theorem handles_never_exceed_limit:
  assumes "1 \<le> max_procs"
  shows "(\<forall>pre. prefix pre (trace (snd (run_workers pc fn args_list max_procs fwd))) \<longrightarrow>
              int (length (handles_after pre)) \<le> max_procs) \<and>
         handles_after (trace (snd (run_workers pc fn args_list max_procs fwd))) =
           map fst (processes (snd (run_workers pc fn args_list max_procs fwd)))"
proof -
  let ?cfg = "mk_config pc fn max_procs fwd"
  have m: "max_processes ?cfg = max_procs" by (simp add: mk_config_def)
  from run_post[where pc=pc and f=fn and fwd=fwd and args=args_list, OF assms]
  have "bounded max_procs (trace (snd (run_workers pc fn args_list max_procs fwd))) \<and>
        handles_after (trace (snd (run_workers pc fn args_list max_procs fwd))) =
          pids (snd (run_workers pc fn args_list max_procs fwd))"
    by (auto simp: acct_def failed_def escaped_end_def m)
  then show ?thesis by (simp add: bounded_def pids_def)
qed

theorem handles_never_exceed_limit_witness:
  "(1::int) \<le> 2 \<and>
   int (length (handles_after (take 4 (trace (snd (run_workers (Process newest_first) return_args
                (Positional [[PyInt 0], [PyInt 1], [PyInt 2]]) 2 True)))))) \<le> 2 \<and>
   handles_after (trace (snd (run_workers (Process newest_first) return_args
                (Positional [[PyInt 0], [PyInt 1], [PyInt 2]]) 2 True))) =
     map fst (processes (snd (run_workers (Process newest_first) return_args
                (Positional [[PyInt 0], [PyInt 1], [PyInt 2]]) 2 True)))"
proof -
  have h: "(1::int) \<le> 2" by simp
  show ?thesis
    using h handles_never_exceed_limit[OF h, of "Process newest_first" return_args
                "Positional [[PyInt 0], [PyInt 1], [PyInt 2]]" True]
    by (simp add: take_is_prefix)
qed

text \<open>
  C8, as the code has it. For every function, job identifier and arguments, \<open>_proc_f\<close>
  puts exactly one envelope on the queue, after those already there, and the envelope
  carries the job identifier. It never carries both payloads. When the function
  returns, the envelope carries the return value and no failure payload, so it carries
  no payload at all when the value is \<open>None\<close>; when the function raises an instance of
  \<open>Exception\<close>, it carries the exception with the joined traceback lines and no success
  payload; in both cases \<open>_proc_f\<close> returns. When the function raises an error outside
  \<open>Exception\<close>, the envelope carries neither payload and the error leaves \<open>_proc_f\<close>.
\<close>

theorem proc_f_delivers_one_envelope:
  "\<exists>r. fst (proc_f fn q pid args kwargs) = q @ [r] \<and>
        r_pid r = pid \<and>
        \<not> (has_result r \<and> has_exception r) \<and>
        (case fn args kwargs of
           Returned v \<Rightarrow>
             r_result r = v \<and> \<not> has_exception r \<and> has_result r = (v \<noteq> PyNone) \<and>
             snd (proc_f fn q pid args kwargs) = None
         | Raised e tb \<Rightarrow>
             r_exception r = Some (e, str_join [CHR 0x0A] tb) \<and> has_exception r \<and> \<not> has_result r \<and>
             snd (proc_f fn q pid args kwargs) = None
         | Escaped e \<Rightarrow>
             \<not> has_result r \<and> \<not> has_exception r \<and>
             snd (proc_f fn q pid args kwargs) = Some e)"
proof (cases "fn args kwargs")
  case (Returned v)
  then show ?thesis
    by (intro exI[of _ "\<lparr>r_pid = pid, r_exception = None, r_result = v\<rparr>"])
       (simp add: proc_f_def has_result_def has_exception_def)
next
  case (Raised e tb)
  then show ?thesis
    by (intro exI[of _ "\<lparr>r_pid = pid, r_exception = Some (e, str_join [CHR 0x0A] tb), r_result = PyNone\<rparr>"])
       (simp add: proc_f_def has_result_def has_exception_def)
next
  case (Escaped e)
  then show ?thesis
    by (intro exI[of _ "\<lparr>r_pid = pid, r_exception = None, r_result = PyNone\<rparr>"])
       (simp add: proc_f_def has_result_def has_exception_def)
qed

text \<open>
  C8 as stated fails: for a function that returns \<open>None\<close>, and for one that calls
  \<open>sys.exit(1)\<close>, the envelope delivered has \<open>None\<close> under both keys, so neither payload is
  present; in the second case the function raised and the envelope carries no error
  object.
\<close>

theorem proc_f_neither_payload_counterexample:
  "proc_f return_none [] 0 [PyInt 0] [] =
     ([\<lparr>r_pid = 0, r_exception = None, r_result = PyNone\<rparr>], None) \<and>
   \<not> has_result \<lparr>r_pid = 0, r_exception = None, r_result = PyNone\<rparr> \<and>
   \<not> has_exception \<lparr>r_pid = 0, r_exception = None, r_result = PyNone\<rparr> \<and>
   proc_f exits [] 0 [PyInt 0] [] =
     ([\<lparr>r_pid = 0, r_exception = None, r_result = PyNone\<rparr>],
      Some \<lparr>exc_class = ''SystemExit'', exc_args = [PyInt 1]\<rparr>)"
  by (simp add: proc_f_def return_none_def exits_def has_result_def has_exception_def)




text \<open>
  C10. No lookup or deletion of \<open>processes[result['pid']]\<close> fails: whatever the process
  class, the function, the jobs, the limit and the flag, the call never raises the
  \<open>KeyError\<close> of lines 114-116.
\<close>

theorem lookups_never_fail:
  "schedule_workers pc fn args_list max_procs fwd \<noteq> Raises (KeyError p)"
proof (cases "1 \<le> max_procs")
  case False
  then have "max_procs \<le> 0" by simp
  from run_nonpositive[OF this] show ?thesis by (simp add: schedule_workers_def)
next
  case True
  from run_post[where pc=pc and f=fn and fwd=fwd and args=args_list, OF True] show ?thesis
    by (auto simp: schedule_workers_def failed_def escaped_end_def)
qed

end
